theory Spec2Isabelle
  imports Complex_Main
begin

section \<open>The breakout trading bot of \<^verbatim>\<open>test2.py\<close>\<close>

text \<open>
  The script polls one trading pair, derives a high/low band from the last seven
  one-minute candles, enters a simulated position on a breakout and manages it with a
  trailing stop. This theory embeds the script function by function.

  Numbers: prices are Python floats in the script. They are modelled as exact rationals
  (\<^typ>\<open>rat\<close>), so a decimal literal such as \<^verbatim>\<open>1.005\<close> is the rational 1005/1000 and
  the binary rounding error of a float product is outside the model. Comparisons and
  \<^verbatim>\<open>max\<close>/\<^verbatim>\<open>min\<close> are the ones of the script.

  Effects: everything the script does to the outside is a field of the record
  \<open>world\<close>, passed through every function and returned updated.
  \<^item> The exchange is an oracle: the outcomes of the successive calls of
    \<^verbatim>\<open>kraken.fetch_ohlcv\<close> and \<^verbatim>\<open>kraken.fetch_ticker\<close> are two lists, read from the
    front. A list that runs out while a function still polls gives the result \<open>None\<close>:
    the run is not over within what the exchange has answered so far. A ticker call
    that returns carries a price (its field \<^verbatim>\<open>'last'\<close>).
  \<^item> \<^verbatim>\<open>time.sleep\<close> and the Telegram messages are appended, in order, to the trace
    \<open>events\<close>. \<^verbatim>\<open>send_telegram_message\<close> returns normally whether or not the POST
    succeeds (it catches the request error), so the trace records the attempt.
    Console output (\<^verbatim>\<open>print\<close>) is not part of the model.
  \<^item> The two JSON files are fields holding their parsed contents. Reading the trade log
    can raise (file missing, not JSON); this is the source of exceptions in the model.
  \<^item> \<^verbatim>\<open>datetime.now()\<close> reads the field \<open>now\<close>, in seconds, which \<^verbatim>\<open>time.sleep\<close>
    advances; formatting a time as text is left out, the records keep the number.
\<close>

subsection \<open>Data\<close>

text \<open>
  A row of \<^verbatim>\<open>fetch_ohlcv\<close>: \<^verbatim>\<open>[timestamp, open, high, low, close, volume]\<close>, so that
  \<^verbatim>\<open>c[2]\<close> is the field \<open>candle_high\<close> and \<^verbatim>\<open>c[3]\<close> the field \<open>candle_low\<close>.
\<close>

record candle =
  candle_timestamp :: int
  candle_open :: rat
  candle_high :: rat
  candle_low :: rat
  candle_close :: rat
  candle_volume :: rat

text \<open>The strings \<^verbatim>\<open>'LONG'\<close> and \<^verbatim>\<open>'SHORT'\<close>.\<close>

datatype direction = LONG | SHORT

text \<open>
  The exceptions that opening and parsing the trade log can raise. Both are subclasses
  of \<^verbatim>\<open>Exception\<close>, the class the handler of \<^verbatim>\<open>main\<close> catches.
\<close>

datatype error = FileNotFoundError | JSONDecodeError

text \<open>The dictionary \<^verbatim>\<open>trade_data\<close> of \<^verbatim>\<open>log_trade\<close>.\<close>

record trade =
  entry_price :: rat
  exit_price :: rat
  trade_type :: direction
  profit_loss :: rat
  trade_time :: int
  reason :: string

text \<open>The dictionary \<^verbatim>\<open>summary_data\<close> of \<^verbatim>\<open>generate_summary\<close>.\<close>

record summary =
  start_date :: int
  end_date :: int
  total_profit_loss :: rat
  trade_count :: nat
  trades :: "trade list"

text \<open>
  The texts handed to \<^verbatim>\<open>send_telegram_message\<close>, one constructor for each f-string of
  the script, with the values it interpolates:
  \<^item> \<open>Starting_bot\<close>: \<^verbatim>\<open>"Starting trading bot..."\<close>
  \<^item> \<open>Monitoring_range high low\<close>: \<^verbatim>\<open>"Monitoring market. 7-minute range: High = {high}, Low = {low}"\<close>
  \<^item> \<open>Signal_generated LONG high\<close>: \<^verbatim>\<open>"Signal generated: LONG above {high}"\<close>;
    \<open>Signal_generated SHORT low\<close>: \<^verbatim>\<open>"Signal generated: SHORT below {low}"\<close>
  \<^item> \<open>Entering_on_retracement d p\<close>: \<^verbatim>\<open>"Entering LONG trade on retracement at {current_price}"\<close>
    (and the same with SHORT)
  \<^item> \<open>Chasing d p\<close>: \<^verbatim>\<open>"Chasing LONG trade at {current_price}"\<close> (and the same with SHORT)
  \<^item> \<open>Stop_loss_hit d p\<close>: \<^verbatim>\<open>"Trailing Stop Loss Hit - Exiting LONG at {current_price}"\<close>
    (and the same with SHORT)
  \<^item> \<open>Report_30_day total\<close>: \<^verbatim>\<open>"30-day report: Total P/L = {total_profit_loss}. Logs reset."\<close>
  \<^item> \<open>Bot_crashed e\<close>: \<^verbatim>\<open>"Bot crashed: {e}. Restarting..."\<close>
\<close>

datatype message =
    Starting_bot
  | Monitoring_range rat rat
  | Signal_generated direction rat
  | Entering_on_retracement direction rat
  | Chasing direction rat
  | Stop_loss_hit direction rat
  | Report_30_day rat
  | Bot_crashed error

datatype event = Sleep nat | Telegram message

text \<open>One call of the exchange client: it raises, or it returns a value.\<close>

datatype 'a attempt = Raises | Returns 'a

text \<open>\<^verbatim>\<open>trade_log.json\<close>: a JSON array of trade records, or a file that cannot be read.\<close>

datatype log_file = Content "trade list" | Unreadable error

record world =
  ohlcv_feed :: "candle list attempt list"
  ticker_feed :: "rat attempt list"
  trade_log_file :: log_file
  summary_file :: "summary list"
  events :: "event list"
  now :: int
  start_time :: int

subsection \<open>Constants\<close>

definition TRADE_AMOUNT :: rat where
  "TRADE_AMOUNT = 0.01"

definition COOLDOWN_PERIOD :: nat where
  "COOLDOWN_PERIOD = 15 * 60"

text \<open>\<^verbatim>\<open>timedelta(days=30)\<close>, in seconds.\<close>

definition days_30 :: int where
  "days_30 = 30 * 86400"

subsection \<open>Sleeping and notifying\<close>

text \<open>\<^verbatim>\<open>time.sleep(n)\<close>.\<close>

definition sleep :: "nat \<Rightarrow> world \<Rightarrow> world" where
  "sleep n w = w\<lparr>events := events w @ [Sleep n], now := now w + int n\<rparr>"

definition send_telegram_message :: "message \<Rightarrow> world \<Rightarrow> world" where
  "send_telegram_message m w = w\<lparr>events := events w @ [Telegram m]\<rparr>"

subsection \<open>Market data\<close>

text \<open>
  \<^verbatim>\<open>fetch_candles\<close>: \<^verbatim>\<open>for _ in range(3)\<close>, with the number of rounds left as the
  first argument. A round that returns leaves the loop; a round that raises sleeps five
  seconds and goes on; after the last round the result is the empty list.
\<close>

fun fetch_candles_rounds :: "nat \<Rightarrow> world \<Rightarrow> (candle list \<times> world) option" where
  "fetch_candles_rounds 0 w = Some ([], w)"
| "fetch_candles_rounds (Suc n) w =
     (case ohlcv_feed w of
        [] \<Rightarrow> None
      | a # rest \<Rightarrow>
         (case a of
            Returns cs \<Rightarrow> Some (cs, w\<lparr>ohlcv_feed := rest\<rparr>)
          | Raises \<Rightarrow> fetch_candles_rounds n (sleep 5 (w\<lparr>ohlcv_feed := rest\<rparr>))))"

definition fetch_candles :: "world \<Rightarrow> (candle list \<times> world) option" where
  "fetch_candles w = fetch_candles_rounds 3 w"

text \<open>
  \<^verbatim>\<open>get_high_low\<close>. \<^verbatim>\<open>max\<close> and \<^verbatim>\<open>min\<close> over the generator of a non-empty list are
  left folds that start from the first element.
\<close>

fun get_high_low :: "candle list \<Rightarrow> rat option \<times> rat option" where
  "get_high_low [] = (None, None)"
| "get_high_low (c # cs) =
     (Some (foldl max (candle_high c) (map candle_high cs)),
      Some (foldl min (candle_low c) (map candle_low cs)))"

text \<open>\<^verbatim>\<open>get_current_price\<close>: the same three rounds; the result on exhaustion is \<open>None\<close>.\<close>

fun get_current_price_rounds :: "nat \<Rightarrow> world \<Rightarrow> (rat option \<times> world) option" where
  "get_current_price_rounds 0 w = Some (None, w)"
| "get_current_price_rounds (Suc n) w =
     (case ticker_feed w of
        [] \<Rightarrow> None
      | a # rest \<Rightarrow>
         (case a of
            Returns p \<Rightarrow> Some (Some p, w\<lparr>ticker_feed := rest\<rparr>)
          | Raises \<Rightarrow> get_current_price_rounds n (sleep 5 (w\<lparr>ticker_feed := rest\<rparr>))))"

definition get_current_price :: "world \<Rightarrow> (rat option \<times> world) option" where
  "get_current_price w = get_current_price_rounds 3 w"

subsection \<open>The trade log\<close>

text \<open>
  Python's \<^verbatim>\<open>round(x, n)\<close> on an exact number: the nearest multiple of \<open>10\<^sup>-\<^sup>n\<close>, a tie
  going to the even one.
\<close>

definition round_half_even :: "rat \<Rightarrow> int" where
  "round_half_even x =
     (let f = \<lfloor>x\<rfloor>; d = x - of_int f
      in if d < 1/2 then f
         else if 1/2 < d then f + 1
         else if even f then f else f + 1)"

definition py_round :: "rat \<Rightarrow> nat \<Rightarrow> rat" where
  "py_round x n = of_int (round_half_even (x * 10 ^ n)) / 10 ^ n"

text \<open>
  \<^verbatim>\<open>log_trade\<close>. Opening the file with \<^verbatim>\<open>'r+'\<close> and \<^verbatim>\<open>json.load\<close> raise on a file that
  cannot be read, before anything is written.
\<close>

definition log_trade ::
  "rat \<Rightarrow> rat \<Rightarrow> direction \<Rightarrow> string \<Rightarrow> world \<Rightarrow> (error + unit) \<times> world" where
  "log_trade entry_p exit_p ttype rsn w =
     (let pl = (if ttype = LONG then py_round ((exit_p - entry_p) * TRADE_AMOUNT) 4
                else py_round ((entry_p - exit_p) * TRADE_AMOUNT) 4);
          trade_data = \<lparr>entry_price = entry_p, exit_price = exit_p, trade_type = ttype,
                        profit_loss = pl, trade_time = now w, reason = rsn\<rparr>
      in case trade_log_file w of
           Unreadable e \<Rightarrow> (Inl e, w)
         | Content ts \<Rightarrow> (Inr (), w\<lparr>trade_log_file := Content (ts @ [trade_data])\<rparr>))"

subsection \<open>The trailing stop\<close>

text \<open>
  The decisions of one round of the loop of \<^verbatim>\<open>trailing_stop_loss\<close> once the price is
  known (lines 105 to 123): the new value of \<^verbatim>\<open>stop_loss\<close>, and whether the round exits.
\<close>

definition trailing_tick :: "rat \<Rightarrow> rat \<Rightarrow> direction \<Rightarrow> rat \<Rightarrow> rat \<times> bool" where
  "trailing_tick entry_p stop_loss ttype current_price =
     (case ttype of
        LONG \<Rightarrow>
          (let s1 = (if current_price > entry_p * 1.01 then max stop_loss (entry_p * 1.005)
                     else stop_loss);
               s2 = (if current_price > entry_p * 1.02 then max s1 (entry_p * 1.01) else s1)
           in (s2, current_price < s2))
      | SHORT \<Rightarrow>
          (let s1 = (if current_price < entry_p * 0.99 then min stop_loss (entry_p * 0.995)
                     else stop_loss);
               s2 = (if current_price < entry_p * 0.98 then min s1 (entry_p * 0.99) else s1)
           in (s2, current_price > s2)))"

text \<open>
  One round of the \<^verbatim>\<open>while True\<close> of \<^verbatim>\<open>trailing_stop_loss\<close>: it goes on to the next
  round with a stop, or it leaves the function, by \<^verbatim>\<open>break\<close> or by the exception of
  \<^verbatim>\<open>log_trade\<close>.
\<close>

datatype trailing_round = Next_round rat world | Leave "(error + unit) \<times> world"

definition trailing_iteration ::
  "rat \<Rightarrow> rat \<Rightarrow> direction \<Rightarrow> world \<Rightarrow> trailing_round option" where
  "trailing_iteration entry_p stop_loss ttype w =
     (case get_current_price (sleep 10 w) of
        None \<Rightarrow> None
      | Some (None, w1) \<Rightarrow> Some (Next_round stop_loss w1)
      | Some (Some current_price, w1) \<Rightarrow>
          (case trailing_tick entry_p stop_loss ttype current_price of
             (s, False) \<Rightarrow> Some (Next_round s w1)
           | (s, True) \<Rightarrow>
               (case log_trade entry_p current_price ttype ''Trailing Stop Loss Hit'' w1 of
                  (Inl e, w2) \<Rightarrow> Some (Leave (Inl e, w2))
                | (Inr u, w2) \<Rightarrow>
                    Some (Leave (Inr (), send_telegram_message (Stop_loss_hit ttype current_price) w2)))))"

lemma get_current_price_rounds_feed:
  "get_current_price_rounds n w = Some (r, w') \<Longrightarrow>
     length (ticker_feed w') \<le> length (ticker_feed w) \<and>
     (0 < n \<longrightarrow> length (ticker_feed w') < length (ticker_feed w))"
proof (induction n arbitrary: w)
  case 0
  then show ?case by simp
next
  case (Suc n)
  show ?case
  proof (cases "ticker_feed w")
    case Nil
    with Suc.prems show ?thesis by simp
  next
    case (Cons a rest)
    show ?thesis
    proof (cases a)
      case Raises
      with Cons Suc.prems
      have "get_current_price_rounds n (sleep 5 (w\<lparr>ticker_feed := rest\<rparr>)) = Some (r, w')"
        by simp
      from Suc.IH [OF this] Cons show ?thesis by (simp add: sleep_def)
    next
      case (Returns p)
      with Cons Suc.prems show ?thesis by auto
    qed
  qed
qed

lemma get_current_price_feed:
  "get_current_price (sleep k w) = Some (r, w') \<Longrightarrow>
     length (ticker_feed w') < length (ticker_feed w)"
  using get_current_price_rounds_feed [of 3 "sleep k w" r w']
  by (simp add: get_current_price_def sleep_def)

lemma trailing_iteration_feed:
  "trailing_iteration entry_p stop_loss ttype w = Some (Next_round s w') \<Longrightarrow>
     length (ticker_feed w') < length (ticker_feed w)"
  by (auto simp: trailing_iteration_def split: option.splits prod.splits bool.splits sum.splits
           dest: get_current_price_feed)

text \<open>\<^verbatim>\<open>trailing_stop_loss\<close>: the rounds, one after the other, until one leaves.\<close>

function trailing_stop_loss ::
  "rat \<Rightarrow> rat \<Rightarrow> direction \<Rightarrow> world \<Rightarrow> ((error + unit) \<times> world) option" where
  "trailing_stop_loss entry_p stop_loss ttype w =
     (case trailing_iteration entry_p stop_loss ttype w of
        None \<Rightarrow> None
      | Some (Leave r) \<Rightarrow> Some r
      | Some (Next_round s w') \<Rightarrow> trailing_stop_loss entry_p s ttype w')"
  by pat_completeness auto
termination
  by (relation "measure (\<lambda>(entry_p, stop_loss, ttype, w). length (ticker_feed w))")
     (auto dest: trailing_iteration_feed)

declare trailing_stop_loss.simps [simp del]

subsection \<open>The signal engine\<close>

text \<open>
  The decisions of one round of the loop of \<^verbatim>\<open>monitor_market\<close> once the price is known
  (lines 144 to 172): the round goes on with a value of \<^verbatim>\<open>entry_signal\<close>, or it calls
  \<^verbatim>\<open>trailing_stop_loss\<close> with an entry price, a stop and a trade type.
\<close>

datatype monitor_decision =
    Continue "direction option" world
  | Enter rat rat direction world

definition monitor_tick ::
  "rat \<Rightarrow> rat \<Rightarrow> direction option \<Rightarrow> rat \<Rightarrow> world \<Rightarrow> monitor_decision" where
  "monitor_tick high low entry_signal current_price w =
     (let (sig, w1) =
            (if entry_signal = None then
               (if current_price > high then
                  (Some LONG, send_telegram_message (Signal_generated LONG high) w)
                else if current_price < low then
                  (Some SHORT, send_telegram_message (Signal_generated SHORT low) w)
                else (None, w))
             else (entry_signal, w))
      in if sig = None then Continue sig w1
         else if sig = Some LONG \<and> low < current_price \<and> current_price < high then
           Enter current_price low LONG
             (send_telegram_message (Entering_on_retracement LONG current_price) w1)
         else if sig = Some LONG \<and> current_price > high then
           Enter current_price low LONG (send_telegram_message (Chasing LONG current_price) w1)
         else if sig = Some SHORT \<and> low < current_price \<and> current_price < high then
           Enter current_price high SHORT
             (send_telegram_message (Entering_on_retracement SHORT current_price) w1)
         else if sig = Some SHORT \<and> current_price < low then
           Enter current_price high SHORT (send_telegram_message (Chasing SHORT current_price) w1)
         else Continue sig w1)"

text \<open>
  One round of the \<^verbatim>\<open>while True\<close> of \<^verbatim>\<open>monitor_market\<close>: it goes on to the next round,
  or it runs \<^verbatim>\<open>trailing_stop_loss\<close> and leaves with what that call leaves with.
\<close>

datatype monitor_round =
    Next_tick "direction option" world
  | Finished "(error + unit) \<times> world"

definition monitor_iteration ::
  "rat \<Rightarrow> rat \<Rightarrow> direction option \<Rightarrow> world \<Rightarrow> monitor_round option" where
  "monitor_iteration high low entry_signal w =
     (case get_current_price (sleep 10 w) of
        None \<Rightarrow> None
      | Some (None, w1) \<Rightarrow> Some (Next_tick entry_signal w1)
      | Some (Some current_price, w1) \<Rightarrow>
          (case monitor_tick high low entry_signal current_price w1 of
             Continue sig w2 \<Rightarrow> Some (Next_tick sig w2)
           | Enter entry_p stop_loss ttype w2 \<Rightarrow>
               (case trailing_stop_loss entry_p stop_loss ttype w2 of
                  None \<Rightarrow> None
                | Some r \<Rightarrow> Some (Finished r))))"

lemma monitor_tick_feed:
  "monitor_tick high low entry_signal p w = Continue sig w' \<Longrightarrow> ticker_feed w' = ticker_feed w"
  by (auto simp: monitor_tick_def send_telegram_message_def Let_def split: if_splits)

lemma monitor_iteration_feed:
  "monitor_iteration high low entry_signal w = Some (Next_tick sig w') \<Longrightarrow>
     length (ticker_feed w') < length (ticker_feed w)"
proof -
  assume it: "monitor_iteration high low entry_signal w = Some (Next_tick sig w')"
  then obtain r w1 where g: "get_current_price (sleep 10 w) = Some (r, w1)"
    by (cases "get_current_price (sleep 10 w)") (auto simp: monitor_iteration_def)
  have lt: "length (ticker_feed w1) < length (ticker_feed w)"
    using g by (rule get_current_price_feed)
  show ?thesis
  proof (cases r)
    case None
    with it g lt show ?thesis by (simp add: monitor_iteration_def)
  next
    case (Some p)
    with it g have "monitor_tick high low entry_signal p w1 = Continue sig w'"
      by (auto simp: monitor_iteration_def split: monitor_decision.splits option.splits)
    then have "ticker_feed w' = ticker_feed w1" by (rule monitor_tick_feed)
    with lt show ?thesis by simp
  qed
qed

function monitor_loop ::
  "rat \<Rightarrow> rat \<Rightarrow> direction option \<Rightarrow> world \<Rightarrow> ((error + unit) \<times> world) option" where
  "monitor_loop high low entry_signal w =
     (case monitor_iteration high low entry_signal w of
        None \<Rightarrow> None
      | Some (Finished r) \<Rightarrow> Some r
      | Some (Next_tick sig w') \<Rightarrow> monitor_loop high low sig w')"
  by pat_completeness auto
termination
  by (relation "measure (\<lambda>(high, low, entry_signal, w). length (ticker_feed w))")
     (auto dest: monitor_iteration_feed)

declare monitor_loop.simps [simp del]

text \<open>\<^verbatim>\<open>monitor_market\<close>.\<close>

definition monitor_market :: "world \<Rightarrow> ((error + unit) \<times> world) option" where
  "monitor_market w =
     (case fetch_candles w of
        None \<Rightarrow> None
      | Some (candles, w1) \<Rightarrow>
          (case get_high_low candles of
             (Some high, Some low) \<Rightarrow>
               monitor_loop high low None (send_telegram_message (Monitoring_range high low) w1)
           | _ \<Rightarrow> Some (Inr (), w1)))"

subsection \<open>The monthly summary\<close>

text \<open>
  \<^verbatim>\<open>generate_summary\<close>. \<^verbatim>\<open>sum\<close> adds from the left, starting at 0. \<^verbatim>\<open>json.load\<close> raises
  on a log that cannot be read, before anything is written.
\<close>

definition generate_summary :: "world \<Rightarrow> (error + unit) \<times> world" where
  "generate_summary w =
     (case trade_log_file w of
        Unreadable e \<Rightarrow> (Inl e, w)
      | Content ts \<Rightarrow>
          (let total = foldl (+) 0 (map profit_loss ts);
               summary_data = \<lparr>start_date = now w - days_30, end_date = now w,
                               total_profit_loss = total, trade_count = length ts,
                               trades = ts\<rparr>
           in (Inr (),
               send_telegram_message (Report_30_day total)
                 (w\<lparr>summary_file := summary_file w @ [summary_data],
                    trade_log_file := Content []\<rparr>))))"

subsection \<open>The scheduler loop\<close>

text \<open>The \<^verbatim>\<open>try\<close> block of \<^verbatim>\<open>main\<close>: it ends normally or with an exception.\<close>

definition main_try :: "world \<Rightarrow> ((error + unit) \<times> world) option" where
  "main_try w =
     (let (r, w1) =
            (if now w \<ge> start_time w + days_30 then
               (case generate_summary w of
                  (Inl e, w') \<Rightarrow> (Inl e, w')
                | (Inr u, w') \<Rightarrow> (Inr (), w'\<lparr>start_time := now w'\<rparr>))
             else (Inr (), w))
      in case r of
           Inl e \<Rightarrow> Some (Inl e, w1)
         | Inr u \<Rightarrow>
             (case monitor_market w1 of
                None \<Rightarrow> None
              | Some (Inl e, w2) \<Rightarrow> Some (Inl e, w2)
              | Some (Inr u, w2) \<Rightarrow> Some (Inr (), sleep COOLDOWN_PERIOD w2)))"

text \<open>The \<^verbatim>\<open>except Exception\<close> clause of \<^verbatim>\<open>main\<close>.\<close>

definition main_except :: "error \<Rightarrow> world \<Rightarrow> world" where
  "main_except e w = sleep 10 (send_telegram_message (Bot_crashed e) w)"

text \<open>One round of the \<^verbatim>\<open>while True\<close> of \<^verbatim>\<open>main\<close>.\<close>

definition main_iteration :: "world \<Rightarrow> world option" where
  "main_iteration w =
     (case main_try w of
        None \<Rightarrow> None
      | Some (Inl e, w') \<Rightarrow> Some (main_except e w')
      | Some (Inr u, w') \<Rightarrow> Some w')"

text \<open>
  The loop of \<^verbatim>\<open>main\<close> has no exit, so its model counts rounds: \<open>main_loop n w\<close> is the
  world after \<open>n\<close> rounds, and \<open>None\<close> when the exchange's answers run out before.
\<close>

fun main_loop :: "nat \<Rightarrow> world \<Rightarrow> world option" where
  "main_loop 0 w = Some w"
| "main_loop (Suc n) w =
     (case main_iteration w of
        None \<Rightarrow> None
      | Some w' \<Rightarrow> main_loop n w')"

definition main :: "nat \<Rightarrow> world \<Rightarrow> world option" where
  "main n w = main_loop n (send_telegram_message Starting_bot w)"

section \<open>Notions used in the properties\<close>

subsection \<open>Worlds for concrete runs\<close>

text \<open>A world in which the exchange has nothing more to answer and the log is empty.\<close>

definition quiet_world :: world where
  "quiet_world =
     \<lparr>ohlcv_feed = [], ticker_feed = [], trade_log_file = Content [], summary_file = [],
      events = [], now = 0, start_time = 0\<rparr>"

text \<open>Two candles whose band is high = 110, low = 100.\<close>

definition band_candles :: "candle list" where
  "band_candles =
     [\<lparr>candle_timestamp = 0, candle_open = 105, candle_high = 110, candle_low = 104,
       candle_close = 106, candle_volume = 1\<rparr>,
      \<lparr>candle_timestamp = 60000, candle_open = 106, candle_high = 108, candle_low = 100,
       candle_close = 101, candle_volume = 1\<rparr>]"


text \<open>A world in which the exchange answers the ticker calls as listed.\<close>

definition price_world :: "rat attempt list \<Rightarrow> world" where
  "price_world feed = quiet_world\<lparr>ticker_feed := feed\<rparr>"

text \<open>
  A world in which the exchange raises on the first three calls of each kind and
  answers the fourth.
\<close>

definition outage_world :: world where
  "outage_world =
     quiet_world\<lparr>ohlcv_feed := [Raises, Raises, Raises, Returns band_candles],
                 ticker_feed := [Raises, Raises, Raises, Returns 105]\<rparr>"

text \<open>
  A world in which the band is high = 110, low = 100 and the prices polled are 111, 105
  and 99.
\<close>

definition breakout_world :: world where
  "breakout_world =
     quiet_world\<lparr>ohlcv_feed := [Returns band_candles],
                 ticker_feed := [Returns 111, Returns 105, Returns 99]\<rparr>"

text \<open>The same with a trade log that is missing.\<close>

definition lost_log_world :: world where
  "lost_log_world = breakout_world\<lparr>trade_log_file := Unreadable FileNotFoundError\<rparr>"

text \<open>A world thirty days after the start whose trade log is not JSON.\<close>

definition bad_log_world :: world where
  "bad_log_world =
     quiet_world\<lparr>trade_log_file := Unreadable JSONDecodeError, now := 2592000\<rparr>"

subsection \<open>Amounts, rounds and traces\<close>

text \<open>
  The amount \<^verbatim>\<open>log_trade\<close> rounds: the price difference in the trade's favour, times
  the amount traded.
\<close>

definition exact_profit_loss :: "rat \<Rightarrow> rat \<Rightarrow> direction \<Rightarrow> rat" where
  "exact_profit_loss entry_p exit_p ttype =
     (case ttype of
        LONG \<Rightarrow> (exit_p - entry_p) * TRADE_AMOUNT
      | SHORT \<Rightarrow> (entry_p - exit_p) * TRADE_AMOUNT)"

text \<open>
  The rounds of the loop of \<open>trailing_stop_loss\<close> that go on to a next round: from a
  stop and a world at the head of the loop to the stop and the world at the head of a
  later round.
\<close>

definition trailing_rounds ::
  "rat \<Rightarrow> direction \<Rightarrow> rat \<times> world \<Rightarrow> rat \<times> world \<Rightarrow> bool" where
  "trailing_rounds entry_p ttype =
     (\<lambda>(s, w) (s', w'). trailing_iteration entry_p s ttype w = Some (Next_round s' w'))\<^sup>*\<^sup>*"

text \<open>
  The rounds of the loop of \<open>monitor_market\<close> that go on to a next round: from a value
  of \<^verbatim>\<open>entry_signal\<close> and a world at the head of the loop to those at the head of a later
  round.
\<close>

definition monitor_rounds ::
  "rat \<Rightarrow> rat \<Rightarrow> direction option \<times> world \<Rightarrow> direction option \<times> world \<Rightarrow> bool" where
  "monitor_rounds high low =
     (\<lambda>(sig, w) (sig', w'). monitor_iteration high low sig w = Some (Next_tick sig' w'))\<^sup>*\<^sup>*"

text \<open>
  The events that open and close a position in the trace: the message of an entry (on
  retracement or chasing) comes right before the call of \<open>trailing_stop_loss\<close>; the
  stop-loss message comes when that call leaves by \<^verbatim>\<open>break\<close>; the crash message of
  \<open>main\<close> comes when it has left by an exception, the position with it.
\<close>

fun is_entry :: "event \<Rightarrow> bool" where
  "is_entry (Telegram (Entering_on_retracement d p)) = True"
| "is_entry (Telegram (Chasing d p)) = True"
| "is_entry ev = False"

fun is_exit :: "event \<Rightarrow> bool" where
  "is_exit (Telegram (Stop_loss_hit d p)) = True"
| "is_exit ev = False"

fun is_crash :: "event \<Rightarrow> bool" where
  "is_crash (Telegram (Bot_crashed e)) = True"
| "is_crash ev = False"

text \<open>
  Reading a trace with the number of open positions in mind, as \<open>Some True\<close> (one) or
  \<open>Some False\<close> (none); \<open>None\<close> is an entry made while a position is open.
\<close>

fun position_step :: "bool option \<Rightarrow> event \<Rightarrow> bool option" where
  "position_step None ev = None"
| "position_step (Some opn) ev =
     (if is_entry ev then (if opn then None else Some True)
      else if is_exit ev \<or> is_crash ev then Some False
      else Some opn)"

definition positions_from :: "bool \<Rightarrow> event list \<Rightarrow> bool option" where
  "positions_from opn evs = foldl position_step (Some opn) evs"

text \<open>A stretch of trace with nothing but sleeps.\<close>

definition only_sleeps :: "event list \<Rightarrow> bool" where
  "only_sleeps evs = list_all (\<lambda>ev. case ev of Sleep k \<Rightarrow> True | Telegram m \<Rightarrow> False) evs"

text \<open>A stretch of trace that neither opens nor closes a position.\<close>

definition quiet_events :: "event list \<Rightarrow> bool" where
  "quiet_events evs = list_all (\<lambda>ev. \<not> is_entry ev \<and> \<not> is_exit ev \<and> \<not> is_crash ev) evs"

text \<open>
  What a call of \<open>trailing_stop_loss\<close> that returns has done: slept, and then either
  logged one trade and sent the stop-loss message, or raised with the log as it was.
\<close>

definition stop_outcome :: "direction \<Rightarrow> world \<Rightarrow> (error + unit) \<times> world \<Rightarrow> bool" where
  "stop_outcome d w rw =
     (\<exists>sl. only_sleeps sl \<and>
        (case fst rw of
           Inr u \<Rightarrow>
             (\<exists>p ts t. events (snd rw) = events w @ sl @ [Telegram (Stop_loss_hit d p)] \<and>
                       trade_log_file w = Content ts \<and>
                       trade_log_file (snd rw) = Content (ts @ [t]))
         | Inl e \<Rightarrow>
             events (snd rw) = events w @ sl \<and> trade_log_file (snd rw) = trade_log_file w))"

text \<open>
  What a call of \<open>monitor_market\<close> that returns has done, in new events \<open>evs\<close>: nothing
  that opens or closes a position; or one entry and, later, its stop-loss exit, with one
  trade appended to the log; or one entry and then an exception, the log as it was.
\<close>

definition cycle_outcome :: "world \<Rightarrow> (error + unit) \<times> world \<Rightarrow> bool" where
  "cycle_outcome w rw =
     (\<exists>evs. events (snd rw) = events w @ evs \<and>
        ((quiet_events evs \<and> fst rw = Inr () \<and> trade_log_file (snd rw) = trade_log_file w) \<or>
         (\<exists>q1 x q2 y ts t.
            evs = q1 @ [x] @ q2 @ [y] \<and> quiet_events q1 \<and> is_entry x \<and> quiet_events q2 \<and>
            is_exit y \<and> fst rw = Inr () \<and> trade_log_file w = Content ts \<and>
            trade_log_file (snd rw) = Content (ts @ [t])) \<or>
         (\<exists>q1 x q2 e.
            evs = q1 @ [x] @ q2 \<and> quiet_events q1 \<and> is_entry x \<and> quiet_events q2 \<and>
            fst rw = Inl e \<and> trade_log_file (snd rw) = trade_log_file w)))"

text \<open>The message of the retracement branches of \<open>monitor_market\<close>.\<close>

fun is_retracement :: "event \<Rightarrow> bool" where
  "is_retracement (Telegram (Entering_on_retracement d p)) = True"
| "is_retracement ev = False"

section \<open>Properties\<close>

subsection \<open>The range detector\<close>

lemma foldl_max_Max: "foldl max (a::rat) xs = Max (insert a (set xs))"
proof (induction xs arbitrary: a)
  case Nil
  then show ?case by simp
next
  case (Cons x xs)
  have "Max (insert (max a x) (set xs)) = Max (insert a (insert x (set xs)))"
  proof (cases "set xs = {}")
    case True
    then show ?thesis by (simp add: max.commute)
  next
    case False
    then show ?thesis by (simp add: max.assoc)
  qed
  with Cons show ?case by simp
qed

lemma foldl_min_Min: "foldl min (a::rat) xs = Min (insert a (set xs))"
proof (induction xs arbitrary: a)
  case Nil
  then show ?case by simp
next
  case (Cons x xs)
  have "Min (insert (min a x) (set xs)) = Min (insert a (insert x (set xs)))"
  proof (cases "set xs = {}")
    case True
    then show ?thesis by (simp add: min.commute)
  next
    case False
    then show ?thesis by (simp add: min.assoc)
  qed
  with Cons show ?case by simp
qed

text \<open>
  C4. \<open>get_high_low\<close> returns \<open>(None, None)\<close> exactly on the empty list. On a list with
  at least one candle it returns the greatest \<open>candle_high\<close> and the least
  \<open>candle_low\<close> of the list, so the first is at least every candle's high and the second
  at most every candle's low.
\<close>

theorem get_high_low_band:
  "(get_high_low candles = (None, None) \<longleftrightarrow> candles = []) \<and>
   (candles \<noteq> [] \<longrightarrow>
      (\<exists>high low.
         get_high_low candles = (Some high, Some low) \<and>
         high = Max (candle_high ` set candles) \<and>
         low = Min (candle_low ` set candles) \<and>
         (\<forall>c \<in> set candles. candle_high c \<le> high \<and> low \<le> candle_low c)))"
proof (cases candles)
  case Nil
  then show ?thesis by simp
next
  case (Cons c cs)
  have "get_high_low candles =
          (Some (Max (candle_high ` set candles)), Some (Min (candle_low ` set candles)))"
    using Cons by (simp add: foldl_max_Max foldl_min_Min)
  moreover have "\<forall>c \<in> set candles.
      candle_high c \<le> Max (candle_high ` set candles) \<and>
      Min (candle_low ` set candles) \<le> candle_low c"
    by simp
  ultimately show ?thesis using Cons by simp
qed

theorem get_high_low_band_witness:
  "band_candles \<noteq> [] \<and> get_high_low band_candles = (Some 110, Some 100) \<and>
   Max (candle_high ` set band_candles) = 110 \<and> Min (candle_low ` set band_candles) = 100 \<and>
   get_high_low [] = (None, None)"
proof -
  have ne: "band_candles \<noteq> []" by (simp add: band_candles_def)
  have v: "get_high_low band_candles = (Some 110, Some 100)" by (simp add: band_candles_def)
  from get_high_low_band [of band_candles] ne v show ?thesis by auto
qed

subsection \<open>The trade log\<close>

lemma round_half_even_close: "\<bar>of_int (round_half_even x) - x\<bar> \<le> 1 / 2"
proof -
  have "of_int \<lfloor>x\<rfloor> \<le> x" and "x < of_int \<lfloor>x\<rfloor> + 1" by linarith+
  then show ?thesis
    by (auto simp: round_half_even_def Let_def)
qed

lemma py_round_close: "\<bar>py_round x n - x\<bar> \<le> 1 / (2 * 10 ^ n)"
proof -
  have p: "(0::rat) < 10 ^ n" by simp
  have "\<bar>py_round x n - x\<bar> = \<bar>of_int (round_half_even (x * 10 ^ n)) - x * 10 ^ n\<bar> / 10 ^ n"
    using p by (simp add: py_round_def field_simps abs_mult)
  also have "\<dots> \<le> (1 / 2) / 10 ^ n"
    by (rule divide_right_mono [OF round_half_even_close]) simp
  finally show ?thesis by simp
qed

lemma log_trade_Content:
  "trade_log_file w = Content ts \<Longrightarrow>
     log_trade entry_p exit_p ttype rsn w =
       (Inr (),
        w\<lparr>trade_log_file := Content (ts @
            [\<lparr>entry_price = entry_p, exit_price = exit_p, trade_type = ttype,
              profit_loss = py_round (exact_profit_loss entry_p exit_p ttype) 4,
              trade_time = now w, reason = rsn\<rparr>])\<rparr>)"
  by (cases ttype) (simp_all add: log_trade_def exact_profit_loss_def)

lemma log_trade_Unreadable:
  "trade_log_file w = Unreadable e \<Longrightarrow> log_trade entry_p exit_p ttype rsn w = (Inl e, w)"
  by (simp add: log_trade_def Let_def)




text \<open>
  C10. Whenever \<open>log_trade\<close> writes a record, it appends exactly that record to the log
  and the record's \<open>profit_loss\<close> has four decimal places: it is a whole number of
  ten-thousandths, the one nearest to the exact profit or loss.
\<close>

theorem log_trade_four_decimals:
  assumes "log_trade entry_p exit_p ttype rsn w = (Inr u, w')"
  shows "\<exists>ts t k. trade_log_file w = Content ts \<and>
                  trade_log_file w' = Content (ts @ [t]) \<and>
                  profit_loss t = of_int k / 10 ^ 4 \<and>
                  \<bar>of_int k / 10 ^ 4 - exact_profit_loss entry_p exit_p ttype\<bar>
                    \<le> 1 / (2 * 10 ^ 4)"
proof (cases "trade_log_file w")
  case (Unreadable e)
  from log_trade_Unreadable [OF this, of entry_p exit_p ttype rsn] assms show ?thesis by simp
next
  case (Content ts)
  let ?x = "exact_profit_loss entry_p exit_p ttype"
  let ?k = "round_half_even (?x * 10 ^ 4)"
  let ?t = "\<lparr>entry_price = entry_p, exit_price = exit_p, trade_type = ttype,
             profit_loss = py_round ?x 4, trade_time = now w, reason = rsn\<rparr>"
  from log_trade_Content [OF Content, of entry_p exit_p ttype rsn] assms
  have w': "w' = w\<lparr>trade_log_file := Content (ts @ [?t])\<rparr>" by simp
  have k: "py_round ?x 4 = of_int ?k / 10 ^ 4" by (simp add: py_round_def)
  have "\<bar>py_round ?x 4 - ?x\<bar> \<le> 1 / (2 * 10 ^ 4)" by (rule py_round_close)
  then have c: "\<bar>of_int ?k / 10 ^ 4 - ?x\<bar> \<le> 1 / (2 * 10 ^ 4)" by (simp only: k)
  have "trade_log_file w' = Content (ts @ [?t])" by (simp add: w')
  moreover have "profit_loss ?t = of_int ?k / 10 ^ 4" using k by simp
  ultimately show ?thesis using Content c by blast
qed

theorem log_trade_four_decimals_witness:
  "log_trade 100 100.001 LONG ''Trailing Stop Loss Hit'' quiet_world =
     (Inr (), quiet_world\<lparr>trade_log_file := Content
        [\<lparr>entry_price = 100, exit_price = 100.001, trade_type = LONG, profit_loss = 0,
          trade_time = 0, reason = ''Trailing Stop Loss Hit''\<rparr>]\<rparr>) \<and>
   (\<exists>k. (0::rat) = of_int k / 10 ^ 4 \<and>
        \<bar>of_int k / 10 ^ 4 - exact_profit_loss 100 100.001 LONG\<bar> \<le> 1 / (2 * 10 ^ 4))"
proof -
  have v: "log_trade 100 100.001 LONG ''Trailing Stop Loss Hit'' quiet_world =
     (Inr (), quiet_world\<lparr>trade_log_file := Content
        [\<lparr>entry_price = 100, exit_price = 100.001, trade_type = LONG, profit_loss = 0,
          trade_time = 0, reason = ''Trailing Stop Loss Hit''\<rparr>]\<rparr>)"
    by code_simp
  from log_trade_four_decimals [OF v] show ?thesis
    using v by (auto simp: quiet_world_def)
qed

subsection \<open>The monthly summary\<close>




subsection \<open>The trailing stop\<close>












subsection \<open>The signal engine\<close>

lemma monitor_tick_breakout_LONG:
  assumes "p > high"
  shows "monitor_tick high low None p w =
           Enter p low LONG
             (send_telegram_message (Chasing LONG p)
                (send_telegram_message (Signal_generated LONG high) w))"
  using assms by (simp add: monitor_tick_def)

lemma monitor_tick_breakout_SHORT:
  assumes "\<not> p > high" and "p < low"
  shows "monitor_tick high low None p w =
           Enter p high SHORT
             (send_telegram_message (Chasing SHORT p)
                (send_telegram_message (Signal_generated SHORT low) w))"
  using assms by (simp add: monitor_tick_def)

lemma monitor_tick_inside:
  assumes "\<not> p > high" and "\<not> p < low"
  shows "monitor_tick high low None p w = Continue None w"
  using assms by (simp add: monitor_tick_def)

lemma monitor_tick_Continue:
  assumes "monitor_tick high low entry_signal p w = Continue sig w'"
  shows "sig = entry_signal \<and> w' = w"
  using assms by (auto simp: monitor_tick_def Let_def split: if_splits)

lemma monitor_iteration_Next_tick:
  assumes "monitor_iteration high low entry_signal w = Some (Next_tick sig w')"
  shows "sig = entry_signal"
proof -
  from assms obtain r w1 where g: "get_current_price (sleep 10 w) = Some (r, w1)"
    by (cases "get_current_price (sleep 10 w)") (auto simp: monitor_iteration_def)
  show ?thesis
  proof (cases r)
    case None
    with assms g show ?thesis by (simp add: monitor_iteration_def)
  next
    case (Some p)
    with assms g have "monitor_tick high low entry_signal p w1 = Continue sig w'"
      by (auto simp: monitor_iteration_def split: monitor_decision.splits option.splits)
    then show ?thesis by (simp add: monitor_tick_Continue)
  qed
qed

lemma monitor_rounds_signal:
  assumes "monitor_rounds high low (entry_signal, w) (sig, w')"
  shows "sig = entry_signal"
proof -
  let ?R = "\<lambda>(sig, w) (sig', w'). monitor_iteration high low sig w = Some (Next_tick sig' w')"
  from assms have "?R\<^sup>*\<^sup>* (entry_signal, w) (sig, w')" by (simp add: monitor_rounds_def)
  then show ?thesis
  proof (induction "(entry_signal, w)" "(sig, w')" arbitrary: sig w' rule: rtranclp.induct)
    case rtrancl_refl
    then show ?case by simp
  next
    case (rtrancl_into_rtrancl b)
    obtain sm wm where b: "b = (sm, wm)" by (cases b)
    from rtrancl_into_rtrancl(2) [OF b] have "sm = entry_signal" .
    moreover from rtrancl_into_rtrancl(3) b
    have "monitor_iteration high low sm wm = Some (Next_tick sig w')" by simp
    then have "sig = sm" by (rule monitor_iteration_Next_tick)
    ultimately show ?case by simp
  qed
qed

lemma monitor_rounds_loop:
  assumes "monitor_rounds high low (entry_signal, w) (sig, w')"
  shows "monitor_loop high low entry_signal w = monitor_loop high low sig w'"
proof -
  let ?R = "\<lambda>(sig, w) (sig', w'). monitor_iteration high low sig w = Some (Next_tick sig' w')"
  from assms have "?R\<^sup>*\<^sup>* (entry_signal, w) (sig, w')" by (simp add: monitor_rounds_def)
  then show ?thesis
  proof (induction "(entry_signal, w)" "(sig, w')" arbitrary: sig w' rule: rtranclp.induct)
    case rtrancl_refl
    then show ?case by simp
  next
    case (rtrancl_into_rtrancl b)
    obtain sm wm where b: "b = (sm, wm)" by (cases b)
    from rtrancl_into_rtrancl(2) [OF b]
    have "monitor_loop high low entry_signal w = monitor_loop high low sm wm" .
    moreover from rtrancl_into_rtrancl(3) b
    have "monitor_iteration high low sm wm = Some (Next_tick sig w')" by simp
    then have "monitor_loop high low sm wm = monitor_loop high low sig w'"
      by (subst monitor_loop.simps) simp
    ultimately show ?case by simp
  qed
qed

text \<open>
  C9. In the loop of \<open>monitor_market\<close>, which starts with no signal, the round whose
  price first breaks out of the band (above \<open>high\<close>, or else below \<open>low\<close>) sends the
  signal message and, in the same round, enters the position at that same price by the
  chase branch. So at the head of every round the loop reaches, \<^verbatim>\<open>entry_signal\<close> is still
  \<open>None\<close>: a signal never lasts to a later round.
\<close>

theorem signal_enters_same_round:
  "(p > high \<longrightarrow>
      monitor_tick high low None p w =
        Enter p low LONG
          (send_telegram_message (Chasing LONG p)
             (send_telegram_message (Signal_generated LONG high) w))) \<and>
   (\<not> p > high \<and> p < low \<longrightarrow>
      monitor_tick high low None p w =
        Enter p high SHORT
          (send_telegram_message (Chasing SHORT p)
             (send_telegram_message (Signal_generated SHORT low) w))) \<and>
   (\<not> p > high \<and> \<not> p < low \<longrightarrow> monitor_tick high low None p w = Continue None w) \<and>
   (monitor_rounds high low (None, w0) (sig, wn) \<longrightarrow>
      sig = None \<and> monitor_loop high low None w0 = monitor_loop high low None wn)"
proof (intro conjI impI)
  assume "p > high"
  then show "monitor_tick high low None p w =
        Enter p low LONG
          (send_telegram_message (Chasing LONG p)
             (send_telegram_message (Signal_generated LONG high) w))"
    by (rule monitor_tick_breakout_LONG)
next
  assume "\<not> p > high \<and> p < low"
  then show "monitor_tick high low None p w =
        Enter p high SHORT
          (send_telegram_message (Chasing SHORT p)
             (send_telegram_message (Signal_generated SHORT low) w))"
    by (simp add: monitor_tick_breakout_SHORT)
next
  assume "\<not> p > high \<and> \<not> p < low"
  then show "monitor_tick high low None p w = Continue None w"
    by (simp add: monitor_tick_inside)
next
  assume r: "monitor_rounds high low (None, w0) (sig, wn)"
  then show s: "sig = None" by (rule monitor_rounds_signal)
  from monitor_rounds_loop [OF r] s
  show "monitor_loop high low None w0 = monitor_loop high low None wn" by simp
qed

theorem signal_enters_same_round_witness:
  "(111::rat) > 110 \<and>
   monitor_tick 110 100 None 111 quiet_world =
     Enter 111 100 LONG
       (send_telegram_message (Chasing LONG 111)
          (send_telegram_message (Signal_generated LONG 110) quiet_world)) \<and>
   monitor_rounds 110 100 (None, price_world [Returns 105, Returns 111])
     (None, sleep 10 (price_world [Returns 111])) \<and>
   monitor_loop 110 100 None (price_world [Returns 105, Returns 111]) =
     monitor_loop 110 100 None (sleep 10 (price_world [Returns 111]))"
proof -
  have h: "(111::rat) > 110" by simp
  have i: "monitor_iteration 110 100 None (price_world [Returns 105, Returns 111]) =
             Some (Next_tick None (sleep 10 (price_world [Returns 111])))"
    by code_simp
  have r: "monitor_rounds 110 100 (None, price_world [Returns 105, Returns 111])
             (None, sleep 10 (price_world [Returns 111]))"
    unfolding monitor_rounds_def using i by (intro r_into_rtranclp) simp
  from signal_enters_same_round
    [where p = 111 and high = 110 and low = 100 and w = quiet_world
       and ?w0.0 = "price_world [Returns 105, Returns 111]" and sig = None
       and wn = "sleep 10 (price_world [Returns 111])"] h r
  show ?thesis by blast
qed

subsection \<open>Fetching with retries\<close>

lemma fetch_candles_rounds_frame:
  assumes "fetch_candles_rounds n w = Some (cs, w1)"
  shows "ticker_feed w1 = ticker_feed w \<and> trade_log_file w1 = trade_log_file w \<and>
         summary_file w1 = summary_file w \<and> start_time w1 = start_time w \<and>
         (\<exists>k\<le>n. events w1 = events w @ replicate k (Sleep 5))"
  using assms
proof (induction n arbitrary: w)
  case 0
  then show ?case by simp
next
  case (Suc n)
  show ?case
  proof (cases "ohlcv_feed w")
    case Nil
    with Suc.prems show ?thesis by simp
  next
    case (Cons a rest)
    show ?thesis
    proof (cases a)
      case (Returns cs')
      with Cons Suc.prems have "w1 = w\<lparr>ohlcv_feed := rest\<rparr>" by simp
      then have "events w1 = events w @ replicate 0 (Sleep 5)" by simp
      with \<open>w1 = w\<lparr>ohlcv_feed := rest\<rparr>\<close> show ?thesis by (auto intro: exI [of _ 0])
    next
      case Raises
      let ?w = "sleep 5 (w\<lparr>ohlcv_feed := rest\<rparr>)"
      from Raises Cons Suc.prems have "fetch_candles_rounds n ?w = Some (cs, w1)" by simp
      from Suc.IH [OF this] obtain k where k: "k \<le> n"
        "events w1 = events ?w @ replicate k (Sleep 5)"
        and f: "ticker_feed w1 = ticker_feed ?w" "trade_log_file w1 = trade_log_file ?w"
          "summary_file w1 = summary_file ?w" "start_time w1 = start_time ?w"
        by auto
      from k have "events w1 = events w @ replicate (Suc k) (Sleep 5)"
        by (simp add: sleep_def)
      with k(1) f show ?thesis
        by (auto simp: sleep_def intro: exI [of _ "Suc k"])
    qed
  qed
qed

lemma get_current_price_rounds_frame:
  assumes "get_current_price_rounds n w = Some (r, w1)"
  shows "ohlcv_feed w1 = ohlcv_feed w \<and> trade_log_file w1 = trade_log_file w \<and>
         summary_file w1 = summary_file w \<and> start_time w1 = start_time w \<and>
         (\<exists>k\<le>n. events w1 = events w @ replicate k (Sleep 5))"
  using assms
proof (induction n arbitrary: w)
  case 0
  then show ?case by simp
next
  case (Suc n)
  show ?case
  proof (cases "ticker_feed w")
    case Nil
    with Suc.prems show ?thesis by simp
  next
    case (Cons a rest)
    show ?thesis
    proof (cases a)
      case (Returns p)
      with Cons Suc.prems have "w1 = w\<lparr>ticker_feed := rest\<rparr>" by simp
      then have "events w1 = events w @ replicate 0 (Sleep 5)" by simp
      with \<open>w1 = w\<lparr>ticker_feed := rest\<rparr>\<close> show ?thesis by (auto intro: exI [of _ 0])
    next
      case Raises
      let ?w = "sleep 5 (w\<lparr>ticker_feed := rest\<rparr>)"
      from Raises Cons Suc.prems have "get_current_price_rounds n ?w = Some (r, w1)" by simp
      from Suc.IH [OF this] obtain k where k: "k \<le> n"
        "events w1 = events ?w @ replicate k (Sleep 5)"
        and f: "ohlcv_feed w1 = ohlcv_feed ?w" "trade_log_file w1 = trade_log_file ?w"
          "summary_file w1 = summary_file ?w" "start_time w1 = start_time ?w"
        by auto
      from k have "events w1 = events w @ replicate (Suc k) (Sleep 5)"
        by (simp add: sleep_def)
      with k(1) f show ?thesis
        by (auto simp: sleep_def intro: exI [of _ "Suc k"])
    qed
  qed
qed

lemma get_current_price_cases:
  shows "ticker_feed w = Returns p # rest \<Longrightarrow>
           get_current_price w = Some (Some p, w\<lparr>ticker_feed := rest\<rparr>)"
    and "ticker_feed w = Raises # Returns p # rest \<Longrightarrow>
           get_current_price w = Some (Some p, (sleep 5 w)\<lparr>ticker_feed := rest\<rparr>)"
    and "ticker_feed w = Raises # Raises # Returns p # rest \<Longrightarrow>
           get_current_price w = Some (Some p, (sleep 5 (sleep 5 w))\<lparr>ticker_feed := rest\<rparr>)"
    and "ticker_feed w = Raises # Raises # Raises # rest \<Longrightarrow>
           get_current_price w =
             Some (None, (sleep 5 (sleep 5 (sleep 5 w)))\<lparr>ticker_feed := rest\<rparr>)"
  by (simp_all add: get_current_price_def eval_nat_numeral sleep_def)

lemma fetch_candles_cases:
  shows "ohlcv_feed w = Returns cs # rest \<Longrightarrow>
           fetch_candles w = Some (cs, w\<lparr>ohlcv_feed := rest\<rparr>)"
    and "ohlcv_feed w = Raises # Returns cs # rest \<Longrightarrow>
           fetch_candles w = Some (cs, (sleep 5 w)\<lparr>ohlcv_feed := rest\<rparr>)"
    and "ohlcv_feed w = Raises # Raises # Returns cs # rest \<Longrightarrow>
           fetch_candles w = Some (cs, (sleep 5 (sleep 5 w))\<lparr>ohlcv_feed := rest\<rparr>)"
    and "ohlcv_feed w = Raises # Raises # Raises # rest \<Longrightarrow>
           fetch_candles w =
             Some ([], (sleep 5 (sleep 5 (sleep 5 w)))\<lparr>ohlcv_feed := rest\<rparr>)"
  by (simp_all add: fetch_candles_def eval_nat_numeral sleep_def)

lemma monitor_market_no_candles:
  assumes "fetch_candles w = Some ([], w1)"
  shows "monitor_market w = Some (Inr (), w1)"
  using assms by (simp add: monitor_market_def)

lemma monitor_iteration_no_price:
  assumes "get_current_price (sleep 10 w) = Some (None, w1)"
  shows "monitor_iteration high low entry_signal w = Some (Next_tick entry_signal w1)"
    and "monitor_loop high low entry_signal w = monitor_loop high low entry_signal w1"
proof -
  show i: "monitor_iteration high low entry_signal w = Some (Next_tick entry_signal w1)"
    using assms by (simp add: monitor_iteration_def)
  show "monitor_loop high low entry_signal w = monitor_loop high low entry_signal w1"
    by (subst monitor_loop.simps) (simp add: i)
qed

text \<open>
  C7. A fetch makes at most three calls: it returns the value of the first call that
  returns, having slept five seconds after each call that raised, and when all three
  raise it yields \<open>None\<close> for the price and the empty list for the candles (a fourth
  answer of the exchange is left unread). When \<open>fetch_candles\<close> yields no candles,
  \<open>monitor_market\<close> returns in the world the fetch left: it has sent no message, polled
  no price and written no trade; all it did was the sleeps of the retries. When the
  price fetch of a round of the monitoring loop yields \<open>None\<close>, the round goes on to the
  next one with \<^verbatim>\<open>entry_signal\<close> as it was and the log untouched.
\<close>

theorem fetch_retries_and_skips:
  "(ticker_feed w = Returns p # rest \<longrightarrow>
      get_current_price w = Some (Some p, w\<lparr>ticker_feed := rest\<rparr>)) \<and>
   (ticker_feed w = Raises # Returns p # rest \<longrightarrow>
      get_current_price w = Some (Some p, (sleep 5 w)\<lparr>ticker_feed := rest\<rparr>)) \<and>
   (ticker_feed w = Raises # Raises # Returns p # rest \<longrightarrow>
      get_current_price w = Some (Some p, (sleep 5 (sleep 5 w))\<lparr>ticker_feed := rest\<rparr>)) \<and>
   (ticker_feed w = Raises # Raises # Raises # rest \<longrightarrow>
      get_current_price w =
        Some (None, (sleep 5 (sleep 5 (sleep 5 w)))\<lparr>ticker_feed := rest\<rparr>)) \<and>
   (ohlcv_feed w = Returns cs # rest' \<longrightarrow>
      fetch_candles w = Some (cs, w\<lparr>ohlcv_feed := rest'\<rparr>)) \<and>
   (ohlcv_feed w = Raises # Returns cs # rest' \<longrightarrow>
      fetch_candles w = Some (cs, (sleep 5 w)\<lparr>ohlcv_feed := rest'\<rparr>)) \<and>
   (ohlcv_feed w = Raises # Raises # Returns cs # rest' \<longrightarrow>
      fetch_candles w = Some (cs, (sleep 5 (sleep 5 w))\<lparr>ohlcv_feed := rest'\<rparr>)) \<and>
   (ohlcv_feed w = Raises # Raises # Raises # rest' \<longrightarrow>
      fetch_candles w =
        Some ([], (sleep 5 (sleep 5 (sleep 5 w)))\<lparr>ohlcv_feed := rest'\<rparr>)) \<and>
   (fetch_candles w = Some ([], w1) \<longrightarrow>
      monitor_market w = Some (Inr (), w1) \<and>
      ticker_feed w1 = ticker_feed w \<and> trade_log_file w1 = trade_log_file w \<and>
      (\<exists>k\<le>3. events w1 = events w @ replicate k (Sleep 5))) \<and>
   (get_current_price (sleep 10 w) = Some (None, w2) \<longrightarrow>
      monitor_iteration high low entry_signal w = Some (Next_tick entry_signal w2) \<and>
      monitor_loop high low entry_signal w = monitor_loop high low entry_signal w2 \<and>
      trade_log_file w2 = trade_log_file w)"
proof (intro conjI impI)
  assume f: "fetch_candles w = Some ([], w1)"
  then show "monitor_market w = Some (Inr (), w1)" by (rule monitor_market_no_candles)
  from f have r: "fetch_candles_rounds 3 w = Some ([], w1)" by (simp add: fetch_candles_def)
  from fetch_candles_rounds_frame [OF r]
  show "ticker_feed w1 = ticker_feed w" and "trade_log_file w1 = trade_log_file w"
    and "\<exists>k\<le>3. events w1 = events w @ replicate k (Sleep 5)"
    by simp_all
next
  assume g: "get_current_price (sleep 10 w) = Some (None, w2)"
  show "monitor_iteration high low entry_signal w = Some (Next_tick entry_signal w2)"
    by (rule monitor_iteration_no_price(1) [OF g])
  show "monitor_loop high low entry_signal w = monitor_loop high low entry_signal w2"
    by (rule monitor_iteration_no_price(2) [OF g])
  from g have "get_current_price_rounds 3 (sleep 10 w) = Some (None, w2)"
    by (simp add: get_current_price_def)
  from get_current_price_rounds_frame [OF this]
  show "trade_log_file w2 = trade_log_file w" by (simp add: sleep_def)
qed (erule get_current_price_cases fetch_candles_cases)+

theorem fetch_retries_and_skips_witness:
  "get_current_price outage_world =
     Some (None, (sleep 5 (sleep 5 (sleep 5 outage_world)))\<lparr>ticker_feed := [Returns 105]\<rparr>) \<and>
   fetch_candles outage_world =
     Some ([], (sleep 5 (sleep 5 (sleep 5 outage_world)))\<lparr>ohlcv_feed := [Returns band_candles]\<rparr>) \<and>
   monitor_market outage_world =
     Some (Inr (),
       (sleep 5 (sleep 5 (sleep 5 outage_world)))\<lparr>ohlcv_feed := [Returns band_candles]\<rparr>) \<and>
   monitor_iteration 110 100 None outage_world =
     Some (Next_tick None
       ((sleep 5 (sleep 5 (sleep 5 (sleep 10 outage_world))))\<lparr>ticker_feed := [Returns 105]\<rparr>)) \<and>
   get_current_price (price_world [Raises, Returns 105]) =
     Some (Some 105, (sleep 5 (price_world [Raises, Returns 105]))\<lparr>ticker_feed := []\<rparr>)"
proof -
  let ?w1 = "(sleep 5 (sleep 5 (sleep 5 outage_world)))\<lparr>ohlcv_feed := [Returns band_candles]\<rparr>"
  let ?w2 = "(sleep 5 (sleep 5 (sleep 5 (sleep 10 outage_world))))\<lparr>ticker_feed := [Returns 105]\<rparr>"
  have t: "ticker_feed outage_world = Raises # Raises # Raises # [Returns 105]"
    and c: "ohlcv_feed outage_world = Raises # Raises # Raises # [Returns band_candles]"
    by (simp_all add: outage_world_def)
  have t10: "ticker_feed (sleep 10 outage_world) = Raises # Raises # Raises # [Returns 105]"
    by (simp add: outage_world_def sleep_def)
  have r: "ticker_feed (price_world [Raises, Returns 105]) = Raises # Returns 105 # []"
    by (simp add: price_world_def)
  have g: "get_current_price outage_world =
     Some (None, (sleep 5 (sleep 5 (sleep 5 outage_world)))\<lparr>ticker_feed := [Returns 105]\<rparr>)"
    using fetch_retries_and_skips [where w = outage_world and rest = "[Returns 105]"] t
    by blast
  have f: "fetch_candles outage_world = Some ([], ?w1)"
    using fetch_retries_and_skips [where w = outage_world and rest' = "[Returns band_candles]"] c
    by blast
  have m: "monitor_market outage_world = Some (Inr (), ?w1)"
    using fetch_retries_and_skips [where w = outage_world and ?w1.0 = ?w1] f by blast
  have g10: "get_current_price (sleep 10 outage_world) = Some (None, ?w2)"
    using fetch_retries_and_skips [where w = "sleep 10 outage_world" and rest = "[Returns 105]"]
      t10 by blast
  have i: "monitor_iteration 110 100 None outage_world = Some (Next_tick None ?w2)"
    using fetch_retries_and_skips
      [where w = outage_world and ?w2.0 = ?w2 and high = 110 and low = 100
         and entry_signal = None] g10
    by blast
  have p: "get_current_price (price_world [Raises, Returns 105]) =
     Some (Some 105, (sleep 5 (price_world [Raises, Returns 105]))\<lparr>ticker_feed := []\<rparr>)"
    using fetch_retries_and_skips
      [where w = "price_world [Raises, Returns 105]" and p = 105 and rest = "[]"] r
    by blast
  from g f m i p show ?thesis by blast
qed

subsection \<open>Positions, one at a time\<close>

lemma only_sleeps_simps [simp]:
  "only_sleeps []"
  "only_sleeps (Sleep k # evs) = only_sleeps evs"
  "only_sleeps (xs @ ys) = (only_sleeps xs \<and> only_sleeps ys)"
  "only_sleeps (replicate n (Sleep k))"
  by (auto simp: only_sleeps_def list_all_iff)

lemma quiet_events_simps [simp]:
  "quiet_events []"
  "quiet_events (ev # evs) =
     (\<not> is_entry ev \<and> \<not> is_exit ev \<and> \<not> is_crash ev \<and> quiet_events evs)"
  "quiet_events (xs @ ys) = (quiet_events xs \<and> quiet_events ys)"
  by (auto simp: quiet_events_def)

lemma only_sleeps_quiet: "only_sleeps evs \<Longrightarrow> quiet_events evs"
  by (induction evs) (auto simp: only_sleeps_def split: event.splits)

lemma fold_position_None: "foldl position_step None evs = None"
  by (induction evs) simp_all

lemma positions_from_append:
  "positions_from opn (xs @ ys) =
     (case positions_from opn xs of None \<Rightarrow> None | Some opn' \<Rightarrow> positions_from opn' ys)"
  by (cases "foldl position_step (Some opn) xs")
     (simp_all add: positions_from_def fold_position_None)

lemma positions_from_Cons:
  "positions_from opn (x # xs) =
     (case position_step (Some opn) x of None \<Rightarrow> None | Some opn' \<Rightarrow> positions_from opn' xs)"
  by (cases "position_step (Some opn) x") (simp_all add: positions_from_def fold_position_None)

lemma positions_from_quiet: "quiet_events evs \<Longrightarrow> positions_from opn evs = Some opn"
  by (induction evs arbitrary: opn) (simp_all add: positions_from_def)

lemma positions_from_entry: "is_entry x \<Longrightarrow> positions_from False [x] = Some True"
  by (simp add: positions_from_def)

lemma is_exit_not_entry: "is_exit y \<Longrightarrow> \<not> is_entry y"
  by (cases y rule: is_exit.cases) simp_all

lemma is_crash_not_entry: "is_crash y \<Longrightarrow> \<not> is_entry y"
  by (cases y rule: is_crash.cases) simp_all

lemma positions_from_exit: "is_exit y \<Longrightarrow> positions_from opn [y] = Some False"
  by (simp add: positions_from_def is_exit_not_entry)

lemma positions_from_crash: "is_crash y \<Longrightarrow> positions_from opn [y] = Some False"
  by (simp add: positions_from_def is_crash_not_entry)

text \<open>What a price fetch at the head of a round (after its ten seconds of sleep) leaves.\<close>

lemma get_current_price_events:
  assumes "get_current_price (sleep k w) = Some (r, w1)"
  shows "\<exists>sl. events w1 = events w @ sl \<and> only_sleeps sl"
    and "trade_log_file w1 = trade_log_file w"
proof -
  from assms have "get_current_price_rounds 3 (sleep k w) = Some (r, w1)"
    by (simp add: get_current_price_def)
  from get_current_price_rounds_frame [OF this]
  obtain j where j: "events w1 = events (sleep k w) @ replicate j (Sleep 5)"
    and l: "trade_log_file w1 = trade_log_file (sleep k w)"
    by auto
  from j have "events w1 = events w @ (Sleep k # replicate j (Sleep 5))"
    by (simp add: sleep_def)
  moreover have "only_sleeps (Sleep k # replicate j (Sleep 5))" by simp
  ultimately show "\<exists>sl. events w1 = events w @ sl \<and> only_sleeps sl" by blast
  from l show "trade_log_file w1 = trade_log_file w" by (simp add: sleep_def)
qed

lemma trailing_iteration_Next_round_events:
  assumes "trailing_iteration e s d w = Some (Next_round s' w')"
  shows "\<exists>sl. events w' = events w @ sl \<and> only_sleeps sl"
    and "trade_log_file w' = trade_log_file w"
proof -
  from assms obtain r w1 where g: "get_current_price (sleep 10 w) = Some (r, w1)"
    by (cases "get_current_price (sleep 10 w)") (auto simp: trailing_iteration_def)
  from assms g have "w' = w1"
    by (auto simp: trailing_iteration_def
             split: option.splits prod.splits bool.splits sum.splits)
  with get_current_price_events [OF g]
  show "\<exists>sl. events w' = events w @ sl \<and> only_sleeps sl"
    and "trade_log_file w' = trade_log_file w"
    by simp_all
qed

lemma trailing_iteration_Leave_events:
  assumes "trailing_iteration e s d w = Some (Leave rw)"
  shows "stop_outcome d w rw"
proof -
  from assms obtain r w1 where g: "get_current_price (sleep 10 w) = Some (r, w1)"
    by (cases "get_current_price (sleep 10 w)") (auto simp: trailing_iteration_def)
  from get_current_price_events [OF g] obtain sl
    where sl: "events w1 = events w @ sl" "only_sleeps sl"
      and l: "trade_log_file w1 = trade_log_file w"
    by auto
  from assms g obtain p where p: "r = Some p"
    by (cases r) (auto simp: trailing_iteration_def)
  let ?lt = "log_trade e p d ''Trailing Stop Loss Hit'' w1"
  from assms g p have rw: "rw = (case ?lt of
        (Inl err, w2) \<Rightarrow> (Inl err, w2)
      | (Inr u, w2) \<Rightarrow> (Inr (), send_telegram_message (Stop_loss_hit d p) w2))"
    by (auto simp: trailing_iteration_def split: prod.splits bool.splits sum.splits)
  show ?thesis
  proof (cases "trade_log_file w1")
    case (Unreadable err)
    from log_trade_Unreadable [OF this] rw have "rw = (Inl err, w1)" by simp
    with sl l show ?thesis by (auto simp: stop_outcome_def)
  next
    case (Content ts)
    from log_trade_Content [OF this, of e p d "''Trailing Stop Loss Hit''"] rw
    obtain t where "rw = (Inr (), send_telegram_message (Stop_loss_hit d p)
                                   (w1\<lparr>trade_log_file := Content (ts @ [t])\<rparr>))"
      by auto
    then have "fst rw = Inr ()"
      and "events (snd rw) = events w @ sl @ [Telegram (Stop_loss_hit d p)]"
      and "trade_log_file (snd rw) = Content (ts @ [t])"
      using sl by (simp_all add: send_telegram_message_def)
    with Content l sl(2) show ?thesis
      unfolding stop_outcome_def by (intro exI [of _ sl]) auto
  qed
qed

lemma stop_outcome_later:
  assumes "events w1 = events w @ sl" and "only_sleeps sl"
    and "trade_log_file w1 = trade_log_file w"
    and "stop_outcome d w1 rw"
  shows "stop_outcome d w rw"
proof -
  from assms(4) obtain sl' where sl': "only_sleeps sl'"
    and c: "case fst rw of
           Inr u \<Rightarrow>
             (\<exists>p ts t. events (snd rw) = events w1 @ sl' @ [Telegram (Stop_loss_hit d p)] \<and>
                       trade_log_file w1 = Content ts \<and>
                       trade_log_file (snd rw) = Content (ts @ [t]))
         | Inl e \<Rightarrow>
             events (snd rw) = events w1 @ sl' \<and> trade_log_file (snd rw) = trade_log_file w1"
    unfolding stop_outcome_def by blast
  have "only_sleeps (sl @ sl')" using assms(2) sl' by simp
  moreover from c assms(1,3) have "case fst rw of
           Inr u \<Rightarrow>
             (\<exists>p ts t. events (snd rw) = events w @ (sl @ sl') @ [Telegram (Stop_loss_hit d p)] \<and>
                       trade_log_file w = Content ts \<and>
                       trade_log_file (snd rw) = Content (ts @ [t]))
         | Inl e \<Rightarrow>
             events (snd rw) = events w @ (sl @ sl') \<and>
             trade_log_file (snd rw) = trade_log_file w"
    by (cases "fst rw") simp_all
  ultimately show ?thesis unfolding stop_outcome_def by blast
qed

lemma trailing_stop_loss_outcome:
  assumes "trailing_stop_loss e s d w = Some rw"
  shows "stop_outcome d w rw"
  using assms
proof (induction e s d w rule: trailing_stop_loss.induct)
  case (1 e s d w)
  show ?case
  proof (cases "trailing_iteration e s d w")
    case None
    with "1.prems" show ?thesis by (simp add: trailing_stop_loss.simps)
  next
    case (Some it)
    show ?thesis
    proof (cases it)
      case (Leave rw')
      with Some "1.prems" have "rw' = rw" by (simp add: trailing_stop_loss.simps)
      with Some Leave show ?thesis by (simp add: trailing_iteration_Leave_events)
    next
      case (Next_round s' w')
      with Some "1.prems" have "trailing_stop_loss e s' d w' = Some rw"
        by (simp add: trailing_stop_loss.simps)
      with "1.IH" Some Next_round have o: "stop_outcome d w' rw" by simp
      from Some Next_round have it: "trailing_iteration e s d w = Some (Next_round s' w')"
        by simp
      from trailing_iteration_Next_round_events [OF it] obtain sl
        where "events w' = events w @ sl" "only_sleeps sl" "trade_log_file w' = trade_log_file w"
        by auto
      then show ?thesis using o by (rule stop_outcome_later)
    qed
  qed
qed

lemma monitor_tick_Enter_events:
  assumes "monitor_tick high low entry_signal p w = Enter e s d w'"
  shows "\<exists>q x. events w' = events w @ q @ [x] \<and> quiet_events q \<and> is_entry x \<and>
               trade_log_file w' = trade_log_file w"
proof -
  let ?sig = "if entry_signal = None then
                (if p > high then [Telegram (Signal_generated LONG high)]
                 else if p < low then [Telegram (Signal_generated SHORT low)] else [])
              else []"
  have q: "quiet_events ?sig" by simp
  from assms have "(\<exists>x. is_entry x \<and> events w' = events w @ ?sig @ [x]) \<and>
                   trade_log_file w' = trade_log_file w"
    by (auto simp: monitor_tick_def send_telegram_message_def Let_def split: if_splits)
  with q show ?thesis by blast
qed

lemma entered_outcome:
  assumes "events w2 = events w @ q @ [x]" and "quiet_events q" and "is_entry x"
    and "trade_log_file w2 = trade_log_file w" and "stop_outcome d w2 rw"
  shows "cycle_outcome w rw"
proof -
  from assms(5) obtain sl where sl: "only_sleeps sl"
    and c: "case fst rw of
           Inr u \<Rightarrow>
             (\<exists>p ts t. events (snd rw) = events w2 @ sl @ [Telegram (Stop_loss_hit d p)] \<and>
                       trade_log_file w2 = Content ts \<and>
                       trade_log_file (snd rw) = Content (ts @ [t]))
         | Inl e \<Rightarrow>
             events (snd rw) = events w2 @ sl \<and> trade_log_file (snd rw) = trade_log_file w2"
    unfolding stop_outcome_def by blast
  have qs: "quiet_events sl" using sl by (rule only_sleeps_quiet)
  show ?thesis
  proof (cases "fst rw")
    case (Inl e)
    with c assms(1,4) have "events (snd rw) = events w @ (q @ [x] @ sl)"
      and "trade_log_file (snd rw) = trade_log_file w"
      by simp_all
    with Inl assms(2,3) qs show ?thesis unfolding cycle_outcome_def by blast
  next
    case (Inr u)
    with c assms(1,4) obtain p ts t
      where "events (snd rw) = events w @ (q @ [x] @ sl @ [Telegram (Stop_loss_hit d p)])"
        and "trade_log_file w = Content ts" and "trade_log_file (snd rw) = Content (ts @ [t])"
      by auto
    moreover have "is_exit (Telegram (Stop_loss_hit d p))" by simp
    moreover from Inr have "fst rw = Inr ()" by simp
    ultimately show ?thesis using assms(2,3) qs unfolding cycle_outcome_def by blast
  qed
qed

lemma monitor_iteration_Next_tick_events:
  assumes "monitor_iteration high low entry_signal w = Some (Next_tick sig w')"
  shows "\<exists>sl. events w' = events w @ sl \<and> only_sleeps sl"
    and "trade_log_file w' = trade_log_file w"
proof -
  from assms obtain r w1 where g: "get_current_price (sleep 10 w) = Some (r, w1)"
    by (cases "get_current_price (sleep 10 w)") (auto simp: monitor_iteration_def)
  have "w' = w1"
  proof (cases r)
    case None
    with assms g show ?thesis by (simp add: monitor_iteration_def)
  next
    case (Some p)
    with assms g have "monitor_tick high low entry_signal p w1 = Continue sig w'"
      by (auto simp: monitor_iteration_def split: monitor_decision.splits option.splits)
    then show ?thesis by (simp add: monitor_tick_Continue)
  qed
  with get_current_price_events [OF g]
  show "\<exists>sl. events w' = events w @ sl \<and> only_sleeps sl"
    and "trade_log_file w' = trade_log_file w"
    by simp_all
qed

lemma monitor_iteration_Finished_outcome:
  assumes "monitor_iteration high low entry_signal w = Some (Finished rw)"
  shows "cycle_outcome w rw"
proof -
  from assms obtain r w1 where g: "get_current_price (sleep 10 w) = Some (r, w1)"
    by (cases "get_current_price (sleep 10 w)") (auto simp: monitor_iteration_def)
  from get_current_price_events [OF g] obtain sl
    where sl: "events w1 = events w @ sl" "only_sleeps sl"
      and l: "trade_log_file w1 = trade_log_file w"
    by auto
  from assms g obtain p where p: "r = Some p"
    by (cases r) (auto simp: monitor_iteration_def)
  from assms g p obtain e s d w2
    where t: "monitor_tick high low entry_signal p w1 = Enter e s d w2"
      and ts: "trailing_stop_loss e s d w2 = Some rw"
    by (auto simp: monitor_iteration_def split: monitor_decision.splits option.splits)
  from monitor_tick_Enter_events [OF t] obtain q x
    where "events w2 = events w1 @ q @ [x]" and q: "quiet_events q" and x: "is_entry x"
      and "trade_log_file w2 = trade_log_file w1"
    by auto
  with sl l have a: "events w2 = events w @ (sl @ q) @ [x]"
    and b: "trade_log_file w2 = trade_log_file w"
    by simp_all
  have c: "quiet_events (sl @ q)" using sl(2) q by (simp add: only_sleeps_quiet)
  have d: "stop_outcome d w2 rw" using ts by (rule trailing_stop_loss_outcome)
  show ?thesis by (rule entered_outcome [OF a c x b d])
qed

lemma cycle_outcome_later:
  assumes "events w1 = events w @ q" and "quiet_events q"
    and "trade_log_file w1 = trade_log_file w" and "cycle_outcome w1 rw"
  shows "cycle_outcome w rw"
proof -
  from assms(4) obtain evs where e: "events (snd rw) = events w1 @ evs"
    and c: "(quiet_events evs \<and> fst rw = Inr () \<and> trade_log_file (snd rw) = trade_log_file w1) \<or>
         (\<exists>q1 x q2 y ts t.
            evs = q1 @ [x] @ q2 @ [y] \<and> quiet_events q1 \<and> is_entry x \<and> quiet_events q2 \<and>
            is_exit y \<and> fst rw = Inr () \<and> trade_log_file w1 = Content ts \<and>
            trade_log_file (snd rw) = Content (ts @ [t])) \<or>
         (\<exists>q1 x q2 e.
            evs = q1 @ [x] @ q2 \<and> quiet_events q1 \<and> is_entry x \<and> quiet_events q2 \<and>
            fst rw = Inl e \<and> trade_log_file (snd rw) = trade_log_file w1)"
    unfolding cycle_outcome_def by blast
  from e assms(1) have e': "events (snd rw) = events w @ (q @ evs)" by simp
  from c consider
      (none) "quiet_events evs" "fst rw = Inr ()" "trade_log_file (snd rw) = trade_log_file w1"
    | (trade) q1 x q2 y ts t where "evs = q1 @ [x] @ q2 @ [y]" "quiet_events q1" "is_entry x"
        "quiet_events q2" "is_exit y" "fst rw = Inr ()" "trade_log_file w1 = Content ts"
        "trade_log_file (snd rw) = Content (ts @ [t])"
    | (raised) q1 x q2 e where "evs = q1 @ [x] @ q2" "quiet_events q1" "is_entry x"
        "quiet_events q2" "fst rw = Inl e" "trade_log_file (snd rw) = trade_log_file w1"
    by blast
  then show ?thesis
  proof cases
    case none
    with assms(2,3) have "quiet_events (q @ evs)"
      and "trade_log_file (snd rw) = trade_log_file w"
      by simp_all
    with e' none(2) show ?thesis unfolding cycle_outcome_def by blast
  next
    case trade
    with assms(2,3) have "q @ evs = (q @ q1) @ [x] @ q2 @ [y]" "quiet_events (q @ q1)"
      "trade_log_file w = Content ts"
      by simp_all
    with e' trade(3-6,8) show ?thesis unfolding cycle_outcome_def by blast
  next
    case raised
    with assms(2,3) have "q @ evs = (q @ q1) @ [x] @ q2" "quiet_events (q @ q1)"
      "trade_log_file (snd rw) = trade_log_file w"
      by simp_all
    with e' raised(3-5) show ?thesis unfolding cycle_outcome_def by blast
  qed
qed

lemma monitor_loop_outcome:
  assumes "monitor_loop high low entry_signal w = Some rw"
  shows "cycle_outcome w rw"
  using assms
proof (induction high low entry_signal w rule: monitor_loop.induct)
  case (1 high low entry_signal w)
  show ?case
  proof (cases "monitor_iteration high low entry_signal w")
    case None
    with "1.prems" show ?thesis by (simp add: monitor_loop.simps)
  next
    case (Some it)
    show ?thesis
    proof (cases it)
      case (Finished rw')
      with Some "1.prems" have "rw' = rw" by (simp add: monitor_loop.simps)
      with Some Finished show ?thesis by (simp add: monitor_iteration_Finished_outcome)
    next
      case (Next_tick sig w')
      with Some "1.prems" have "monitor_loop high low sig w' = Some rw"
        by (simp add: monitor_loop.simps)
      with "1.IH" Some Next_tick have o: "cycle_outcome w' rw" by simp
      from Some Next_tick
      have it: "monitor_iteration high low entry_signal w = Some (Next_tick sig w')" by simp
      from monitor_iteration_Next_tick_events [OF it] obtain sl
        where "events w' = events w @ sl" "only_sleeps sl" "trade_log_file w' = trade_log_file w"
        by auto
      then show ?thesis
        using o only_sleeps_quiet [of sl] by (blast intro: cycle_outcome_later)
    qed
  qed
qed

lemma monitor_market_outcome:
  assumes "monitor_market w = Some rw"
  shows "cycle_outcome w rw"
proof -
  from assms obtain cs w1 where f: "fetch_candles w = Some (cs, w1)"
    by (cases "fetch_candles w") (auto simp: monitor_market_def)
  then have "fetch_candles_rounds 3 w = Some (cs, w1)" by (simp add: fetch_candles_def)
  from fetch_candles_rounds_frame [OF this] obtain k
    where ev: "events w1 = events w @ replicate k (Sleep 5)"
      and l: "trade_log_file w1 = trade_log_file w"
    by auto
  have qk: "quiet_events (replicate k (Sleep 5))" by (simp add: only_sleeps_quiet)
  show ?thesis
  proof (cases cs)
    case Nil
    with assms f have "rw = (Inr (), w1)" by (simp add: monitor_market_def)
    with ev l qk show ?thesis unfolding cycle_outcome_def by auto
  next
    case (Cons c cs')
    then obtain high low where hl: "get_high_low cs = (Some high, Some low)" by simp
    let ?w = "send_telegram_message (Monitoring_range high low) w1"
    from assms f hl have "monitor_loop high low None ?w = Some rw"
      by (simp add: monitor_market_def)
    then have o: "cycle_outcome ?w rw" by (rule monitor_loop_outcome)
    let ?q = "replicate k (Sleep 5) @ [Telegram (Monitoring_range high low)]"
    have a: "events ?w = events w @ ?q"
      using ev by (simp add: send_telegram_message_def)
    have b: "quiet_events ?q" using qk by simp
    have c: "trade_log_file ?w = trade_log_file w"
      using l by (simp add: send_telegram_message_def)
    show ?thesis by (rule cycle_outcome_later [OF a b c o])
  qed
qed

lemma quiet_no_entries: "quiet_events q \<Longrightarrow> filter is_entry q = []"
  by (induction q) simp_all

lemma cycle_outcome_summary:
  assumes "cycle_outcome w rw"
  shows "\<exists>evs. events (snd rw) = events w @ evs \<and>
               length (filter is_entry evs) \<le> 1 \<and>
               (trade_log_file (snd rw) = trade_log_file w \<or>
                (\<exists>ts t. trade_log_file w = Content ts \<and>
                        trade_log_file (snd rw) = Content (ts @ [t]))) \<and>
               positions_from False evs = Some (case fst rw of Inl e \<Rightarrow> True | Inr u \<Rightarrow> False)"
proof -
  from assms obtain evs where e: "events (snd rw) = events w @ evs"
    and c: "(quiet_events evs \<and> fst rw = Inr () \<and> trade_log_file (snd rw) = trade_log_file w) \<or>
         (\<exists>q1 x q2 y ts t.
            evs = q1 @ [x] @ q2 @ [y] \<and> quiet_events q1 \<and> is_entry x \<and> quiet_events q2 \<and>
            is_exit y \<and> fst rw = Inr () \<and> trade_log_file w = Content ts \<and>
            trade_log_file (snd rw) = Content (ts @ [t])) \<or>
         (\<exists>q1 x q2 e.
            evs = q1 @ [x] @ q2 \<and> quiet_events q1 \<and> is_entry x \<and> quiet_events q2 \<and>
            fst rw = Inl e \<and> trade_log_file (snd rw) = trade_log_file w)"
    unfolding cycle_outcome_def by blast
  from c consider
      (none) "quiet_events evs" "fst rw = Inr ()" "trade_log_file (snd rw) = trade_log_file w"
    | (trade) q1 x q2 y ts t where "evs = q1 @ [x] @ q2 @ [y]" "quiet_events q1" "is_entry x"
        "quiet_events q2" "is_exit y" "fst rw = Inr ()" "trade_log_file w = Content ts"
        "trade_log_file (snd rw) = Content (ts @ [t])"
    | (raised) q1 x q2 e where "evs = q1 @ [x] @ q2" "quiet_events q1" "is_entry x"
        "quiet_events q2" "fst rw = Inl e" "trade_log_file (snd rw) = trade_log_file w"
    by blast
  then have "length (filter is_entry evs) \<le> 1 \<and>
               (trade_log_file (snd rw) = trade_log_file w \<or>
                (\<exists>ts t. trade_log_file w = Content ts \<and>
                        trade_log_file (snd rw) = Content (ts @ [t]))) \<and>
               positions_from False evs = Some (case fst rw of Inl e \<Rightarrow> True | Inr u \<Rightarrow> False)"
  proof cases
    case none
    then show ?thesis by (simp add: quiet_no_entries positions_from_quiet)
  next
    case trade
    have "positions_from False evs = Some False"
      using trade(1-5)
      by (simp add: positions_from_append positions_from_Cons positions_from_quiet
            positions_from_exit is_exit_not_entry)
    moreover have "length (filter is_entry evs) \<le> 1"
      using trade(1-5) by (simp add: quiet_no_entries is_exit_not_entry)
    ultimately show ?thesis using trade(6-8) by auto
  next
    case raised
    have "positions_from False evs = Some True"
      using raised(1-4)
      by (simp add: positions_from_append positions_from_Cons positions_from_quiet)
    moreover have "length (filter is_entry evs) \<le> 1"
      using raised(1-4) by (simp add: quiet_no_entries)
    ultimately show ?thesis using raised(5,6) by auto
  qed
  with e show ?thesis by blast
qed

lemma trailing_rounds_events:
  assumes "trailing_rounds e d (s, w) (s', w')"
  shows "(\<exists>sl. events w' = events w @ sl \<and> only_sleeps sl) \<and>
         trade_log_file w' = trade_log_file w"
proof -
  let ?R = "\<lambda>(s, w) (s', w'). trailing_iteration e s d w = Some (Next_round s' w')"
  from assms have "?R\<^sup>*\<^sup>* (s, w) (s', w')" by (simp add: trailing_rounds_def)
  then show ?thesis
  proof (induction "(s, w)" "(s', w')" arbitrary: s' w' rule: rtranclp.induct)
    case rtrancl_refl
    have "events w = events w @ [] \<and> only_sleeps []" by simp
    then show ?case by blast
  next
    case (rtrancl_into_rtrancl b)
    obtain sm wm where b: "b = (sm, wm)" by (cases b)
    from rtrancl_into_rtrancl(2) [OF b] obtain sl
      where sl: "events wm = events w @ sl" "only_sleeps sl"
        and l: "trade_log_file wm = trade_log_file w"
      by auto
    from rtrancl_into_rtrancl(3) b
    have it: "trailing_iteration e sm d wm = Some (Next_round s' w')" by simp
    from trailing_iteration_Next_round_events [OF it] obtain sl'
      where sl': "events w' = events wm @ sl'" "only_sleeps sl'"
        and l': "trade_log_file w' = trade_log_file wm"
      by auto
    from sl sl' have "events w' = events w @ (sl @ sl') \<and> only_sleeps (sl @ sl')" by simp
    with l l' show ?case by (intro conjI exI [of _ "sl @ sl'"]) simp_all
  qed
qed

lemma generate_summary_events:
  assumes "generate_summary w = (r, w')"
  shows "\<exists>q. events w' = events w @ q \<and> quiet_events q"
proof (cases "trade_log_file w")
  case (Unreadable e)
  with assms have "events w' = events w @ []" by (simp add: generate_summary_def)
  then show ?thesis by (intro exI [of _ "[]"]) simp
next
  case (Content ts)
  let ?q = "[Telegram (Report_30_day (foldl (+) 0 (map profit_loss ts)))]"
  from Content assms have "events w' = events w @ ?q"
    by (auto simp: generate_summary_def send_telegram_message_def Let_def)
  then show ?thesis by (intro exI [of _ ?q]) simp
qed

lemma main_try_events:
  assumes "main_try w = Some (r, w')"
  shows "\<exists>evs opn. events w' = events w @ evs \<and> positions_from False evs = Some opn \<and>
                   (r = Inr () \<longrightarrow> \<not> opn)"
proof (cases "now w \<ge> start_time w + days_30")
  case False
  show ?thesis
  proof (cases "monitor_market w")
    case None
    with False assms show ?thesis by (simp add: main_try_def)
  next
    case (Some rw)
    from monitor_market_outcome [OF Some] have "cycle_outcome w rw" .
    from cycle_outcome_summary [OF this] obtain evs
      where ev: "events (snd rw) = events w @ evs"
        and p: "positions_from False evs = Some (case fst rw of Inl e \<Rightarrow> True | Inr u \<Rightarrow> False)"
      by blast
    show ?thesis
    proof (cases "fst rw")
      case (Inl e)
      with Some False assms have "w' = snd rw" and "r \<noteq> Inr ()"
        by (cases rw; auto simp: main_try_def)+
      with ev p Inl show ?thesis by auto
    next
      case (Inr u)
      with Some False assms have w': "w' = sleep COOLDOWN_PERIOD (snd rw)"
        by (cases rw) (auto simp: main_try_def)
      with ev have "events w' = events w @ (evs @ [Sleep COOLDOWN_PERIOD])"
        by (simp add: sleep_def)
      moreover from p Inr have "positions_from False (evs @ [Sleep COOLDOWN_PERIOD]) = Some False"
        by (simp add: positions_from_append positions_from_quiet)
      ultimately show ?thesis by blast
    qed
  qed
next
  case True
  obtain r0 w0 where gs: "generate_summary w = (r0, w0)" by (cases "generate_summary w")
  from generate_summary_events [OF gs] obtain q
    where q: "events w0 = events w @ q" "quiet_events q"
    by auto
  show ?thesis
  proof (cases r0)
    case (Inl e)
    with True gs assms have "w' = w0" by (simp add: main_try_def)
    with q have "events w' = events w @ q" "positions_from False q = Some False"
      by (simp_all add: positions_from_quiet)
    then show ?thesis by blast
  next
    case (Inr u)
    let ?w1 = "w0\<lparr>start_time := now w0\<rparr>"
    have ev1: "events ?w1 = events w @ q" using q by simp
    show ?thesis
    proof (cases "monitor_market ?w1")
      case None
      with True gs Inr assms show ?thesis by (simp add: main_try_def)
    next
      case (Some rw)
      from monitor_market_outcome [OF Some] have "cycle_outcome ?w1 rw" .
      from cycle_outcome_summary [OF this] obtain evs
        where ev: "events (snd rw) = events ?w1 @ evs"
          and p: "positions_from False evs =
                    Some (case fst rw of Inl e \<Rightarrow> True | Inr u \<Rightarrow> False)"
        by blast
      from p q(2) have pq: "positions_from False (q @ evs) =
                    Some (case fst rw of Inl e \<Rightarrow> True | Inr u \<Rightarrow> False)"
        by (simp add: positions_from_append positions_from_quiet)
      show ?thesis
      proof (cases "fst rw")
        case (Inl e)
        with Some True gs Inr assms have "w' = snd rw" and "r \<noteq> Inr ()"
          by (cases rw; auto simp: main_try_def)+
        with ev ev1 have "events w' = events w @ (q @ evs)" by simp
        with pq Inl \<open>r \<noteq> Inr ()\<close> show ?thesis by auto
      next
        case Inr2: (Inr u')
        with Some True gs Inr assms have "w' = sleep COOLDOWN_PERIOD (snd rw)"
          by (cases rw) (auto simp: main_try_def)
        with ev ev1 have "events w' = events w @ ((q @ evs) @ [Sleep COOLDOWN_PERIOD])"
          by (simp add: sleep_def)
        moreover from pq Inr2
        have "positions_from False ((q @ evs) @ [Sleep COOLDOWN_PERIOD]) = Some False"
          by (simp add: positions_from_append positions_from_quiet del: append_assoc)
        ultimately show ?thesis by blast
      qed
    qed
  qed
qed

lemma main_iteration_events:
  assumes "main_iteration w = Some w'"
  shows "\<exists>evs. events w' = events w @ evs \<and> positions_from False evs = Some False"
proof -
  from assms obtain r w1 where t: "main_try w = Some (r, w1)"
    by (cases "main_try w") (auto simp: main_iteration_def)
  from main_try_events [OF t] obtain evs opn
    where ev: "events w1 = events w @ evs" and p: "positions_from False evs = Some opn"
      and n: "r = Inr () \<longrightarrow> \<not> opn"
    by blast
  show ?thesis
  proof (cases r)
    case (Inr u)
    with t assms have "w' = w1" by (simp add: main_iteration_def)
    with ev p n Inr show ?thesis by auto
  next
    case (Inl e)
    with t assms have "w' = main_except e w1" by (simp add: main_iteration_def)
    with ev have "events w' = events w @ (evs @ [Telegram (Bot_crashed e), Sleep 10])"
      by (simp add: main_except_def sleep_def send_telegram_message_def)
    moreover have "positions_from False (evs @ [Telegram (Bot_crashed e), Sleep 10]) = Some False"
      using p by (simp add: positions_from_append) (simp add: positions_from_def)
    ultimately show ?thesis by blast
  qed
qed

lemma main_loop_events:
  assumes "main_loop n w = Some w'"
  shows "\<exists>evs. events w' = events w @ evs \<and> positions_from False evs = Some False"
  using assms
proof (induction n arbitrary: w)
  case 0
  then have "events w' = events w @ []" by simp
  moreover have "positions_from False [] = Some False" by (simp add: positions_from_def)
  ultimately show ?case by blast
next
  case (Suc n)
  from Suc.prems obtain w1 where i: "main_iteration w = Some w1"
    and l: "main_loop n w1 = Some w'"
    by (cases "main_iteration w") auto
  from main_iteration_events [OF i] obtain evs
    where e1: "events w1 = events w @ evs" "positions_from False evs = Some False"
    by blast
  from Suc.IH [OF l] obtain evs'
    where e2: "events w' = events w1 @ evs'" "positions_from False evs' = Some False"
    by blast
  from e1 e2 have "events w' = events w @ (evs @ evs')"
    and "positions_from False (evs @ evs') = Some False"
    by (simp_all add: positions_from_append)
  then show ?case by blast
qed

text \<open>
  C8. A call of \<open>monitor_market\<close> that returns has sent at most one entry message and
  has left the trade log as it was or with exactly one record appended. While the rounds
  of \<open>trailing_stop_loss\<close> go on (a position is open) nothing happens but sleeping: no
  entry, no trade. And over any number of rounds of the scheduler loop, no entry is made
  while a position is open, and none is open when a round ends.
\<close>

theorem one_position_at_a_time:
  "(monitor_market w = Some (r, w') \<longrightarrow>
      (\<exists>evs. events w' = events w @ evs \<and> length (filter is_entry evs) \<le> 1 \<and>
             (trade_log_file w' = trade_log_file w \<or>
              (\<exists>ts t. trade_log_file w = Content ts \<and>
                      trade_log_file w' = Content (ts @ [t]))))) \<and>
   (trailing_rounds e d (s, w) (s', w'') \<longrightarrow>
      (\<exists>sl. events w'' = events w @ sl \<and> only_sleeps sl) \<and>
      trade_log_file w'' = trade_log_file w) \<and>
   (main_loop n w = Some wn \<longrightarrow>
      (\<exists>evs. events wn = events w @ evs \<and> positions_from False evs = Some False))"
proof (intro conjI impI)
  assume "monitor_market w = Some (r, w')"
  from cycle_outcome_summary [OF monitor_market_outcome [OF this]]
  show "\<exists>evs. events w' = events w @ evs \<and> length (filter is_entry evs) \<le> 1 \<and>
             (trade_log_file w' = trade_log_file w \<or>
              (\<exists>ts t. trade_log_file w = Content ts \<and>
                      trade_log_file w' = Content (ts @ [t])))"
    by auto
next
  assume r: "trailing_rounds e d (s, w) (s', w'')"
  from trailing_rounds_events [OF r]
  show "\<exists>sl. events w'' = events w @ sl \<and> only_sleeps sl"
    and "trade_log_file w'' = trade_log_file w"
    by simp_all
next
  assume "main_loop n w = Some wn"
  then show "\<exists>evs. events wn = events w @ evs \<and> positions_from False evs = Some False"
    by (rule main_loop_events)
qed

theorem one_position_at_a_time_witness:
  "monitor_market breakout_world =
     Some (Inr (),
       \<lparr>ohlcv_feed = [], ticker_feed = [],
        trade_log_file = Content
          [\<lparr>entry_price = 111, exit_price = 99, trade_type = LONG, profit_loss = - 0.12,
            trade_time = 30, reason = ''Trailing Stop Loss Hit''\<rparr>],
        summary_file = [],
        events = [Telegram (Monitoring_range 110 100), Sleep 10,
                  Telegram (Signal_generated LONG 110), Telegram (Chasing LONG 111),
                  Sleep 10, Sleep 10, Telegram (Stop_loss_hit LONG 99)],
        now = 30, start_time = 0\<rparr>) \<and>
   length (filter is_entry
     [Telegram (Monitoring_range 110 100), Sleep 10,
      Telegram (Signal_generated LONG 110), Telegram (Chasing LONG 111),
      Sleep 10, Sleep 10, Telegram (Stop_loss_hit LONG 99)]) = 1 \<and>
   (\<exists>wn evs. main_loop 2 (breakout_world\<lparr>ohlcv_feed := [Returns band_candles, Returns []]\<rparr>)
                = Some wn \<and>
             events wn = evs \<and> positions_from False evs = Some False)"
proof -
  let ?w' = "\<lparr>ohlcv_feed = [], ticker_feed = [],
        trade_log_file = Content
          [\<lparr>entry_price = 111, exit_price = 99, trade_type = LONG, profit_loss = - 0.12,
            trade_time = 30, reason = ''Trailing Stop Loss Hit''\<rparr>],
        summary_file = [],
        events = [Telegram (Monitoring_range 110 100), Sleep 10,
                  Telegram (Signal_generated LONG 110), Telegram (Chasing LONG 111),
                  Sleep 10, Sleep 10, Telegram (Stop_loss_hit LONG 99)],
        now = 30, start_time = 0\<rparr>"
  let ?w2 = "breakout_world\<lparr>ohlcv_feed := [Returns band_candles, Returns []]\<rparr>"
  have m: "monitor_market breakout_world = Some (Inr (), ?w')" by code_simp
  have c: "length (filter is_entry
     [Telegram (Monitoring_range 110 100), Sleep 10,
      Telegram (Signal_generated LONG 110), Telegram (Chasing LONG 111),
      Sleep 10, Sleep 10, Telegram (Stop_loss_hit LONG 99)]) = 1"
    by simp
  have "main_loop 2 ?w2 \<noteq> None" by code_simp
  then obtain wn where l: "main_loop 2 ?w2 = Some wn" by auto
  have e: "events ?w2 = []" by (simp add: breakout_world_def quiet_world_def)
  from one_position_at_a_time [where w = ?w2 and n = 2 and wn = wn] l e
  have "\<exists>evs. events wn = evs \<and> positions_from False evs = Some False" by simp
  with l m c show ?thesis by blast
qed

subsection \<open>The retracement branches are never taken\<close>

lemma only_sleeps_no_retracement: "only_sleeps sl \<Longrightarrow> filter is_retracement sl = []"
  by (induction sl) (auto simp: only_sleeps_def split: event.splits)

lemma stop_outcome_no_retracement:
  assumes "stop_outcome d w rw"
  shows "\<exists>evs. events (snd rw) = events w @ evs \<and> filter is_retracement evs = []"
proof -
  from assms obtain sl where sl: "only_sleeps sl"
    and c: "case fst rw of
           Inr u \<Rightarrow>
             (\<exists>p ts t. events (snd rw) = events w @ sl @ [Telegram (Stop_loss_hit d p)] \<and>
                       trade_log_file w = Content ts \<and>
                       trade_log_file (snd rw) = Content (ts @ [t]))
         | Inl e \<Rightarrow>
             events (snd rw) = events w @ sl \<and> trade_log_file (snd rw) = trade_log_file w"
    unfolding stop_outcome_def by blast
  show ?thesis
  proof (cases "fst rw")
    case (Inl e)
    with c sl show ?thesis by (auto simp: only_sleeps_no_retracement)
  next
    case (Inr u)
    with c obtain p where "events (snd rw) = events w @ (sl @ [Telegram (Stop_loss_hit d p)])"
      by auto
    moreover have "filter is_retracement (sl @ [Telegram (Stop_loss_hit d p)]) = []"
      using sl by (simp add: only_sleeps_no_retracement)
    ultimately show ?thesis by blast
  qed
qed

lemma monitor_loop_no_retracement:
  assumes "monitor_loop high low entry_signal w = Some rw" and "entry_signal = None"
  shows "\<exists>evs. events (snd rw) = events w @ evs \<and> filter is_retracement evs = []"
  using assms
proof (induction high low entry_signal w rule: monitor_loop.induct)
  case (1 high low entry_signal w)
  note sig = \<open>entry_signal = None\<close>
  from "1.prems"(1) obtain r w1 where g: "get_current_price (sleep 10 w) = Some (r, w1)"
    by (cases "get_current_price (sleep 10 w)")
       (auto simp: monitor_loop.simps monitor_iteration_def)
  from get_current_price_events(1) [OF g] obtain sl
    where sl: "events w1 = events w @ sl" "only_sleeps sl"
    by auto
  have go_on: ?case if it: "monitor_iteration high low entry_signal w = Some (Next_tick None w1)"
  proof -
    from it "1.prems"(1) have "monitor_loop high low None w1 = Some rw"
      by (simp add: monitor_loop.simps)
    from "1.IH" [OF it refl this refl] obtain evs
      where "events (snd rw) = events w1 @ evs" "filter is_retracement evs = []"
      by auto
    with sl have "events (snd rw) = events w @ (sl @ evs)"
      and "filter is_retracement (sl @ evs) = []"
      by (simp_all add: only_sleeps_no_retracement)
    then show ?thesis by blast
  qed
  show ?case
  proof (cases r)
    case None
    with g sig have "monitor_iteration high low entry_signal w = Some (Next_tick None w1)"
      by (simp add: monitor_iteration_def)
    then show ?thesis by (rule go_on)
  next
    case (Some p)
    consider (above) "p > high" | (below) "\<not> p > high" "p < low"
      | (inside) "\<not> p > high" "\<not> p < low"
      by blast
    then show ?thesis
    proof cases
      case inside
      with g Some sig
      have "monitor_iteration high low entry_signal w = Some (Next_tick None w1)"
        by (simp add: monitor_iteration_def monitor_tick_inside)
      then show ?thesis by (rule go_on)
    next
      case above
      let ?w2 = "send_telegram_message (Chasing LONG p)
                   (send_telegram_message (Signal_generated LONG high) w1)"
      from above g Some sig "1.prems"(1)
      have "trailing_stop_loss p low LONG ?w2 = Some rw"
        by (auto simp: monitor_loop.simps monitor_iteration_def monitor_tick_breakout_LONG
                 split: option.splits)
      from stop_outcome_no_retracement [OF trailing_stop_loss_outcome [OF this]] obtain evs
        where "events (snd rw) = events ?w2 @ evs" "filter is_retracement evs = []"
        by auto
      with sl have "events (snd rw) =
          events w @ (sl @ [Telegram (Signal_generated LONG high), Telegram (Chasing LONG p)] @ evs)"
        and "filter is_retracement
          (sl @ [Telegram (Signal_generated LONG high), Telegram (Chasing LONG p)] @ evs) = []"
        by (simp_all add: send_telegram_message_def only_sleeps_no_retracement)
      then show ?thesis by blast
    next
      case below
      let ?w2 = "send_telegram_message (Chasing SHORT p)
                   (send_telegram_message (Signal_generated SHORT low) w1)"
      from below g Some sig "1.prems"(1)
      have "trailing_stop_loss p high SHORT ?w2 = Some rw"
        by (auto simp: monitor_loop.simps monitor_iteration_def monitor_tick_breakout_SHORT
                 split: option.splits)
      from stop_outcome_no_retracement [OF trailing_stop_loss_outcome [OF this]] obtain evs
        where "events (snd rw) = events ?w2 @ evs" "filter is_retracement evs = []"
        by auto
      with sl have "events (snd rw) =
          events w @ (sl @ [Telegram (Signal_generated SHORT low), Telegram (Chasing SHORT p)] @ evs)"
        and "filter is_retracement
          (sl @ [Telegram (Signal_generated SHORT low), Telegram (Chasing SHORT p)] @ evs) = []"
        by (simp_all add: send_telegram_message_def only_sleeps_no_retracement)
      then show ?thesis by blast
    qed
  qed
qed

text \<open>
  No call of \<open>monitor_market\<close> that returns has sent the message of a retracement entry,
  whatever the candles and the prices.
\<close>

lemma monitor_market_never_retraces:
  assumes "monitor_market w = Some rw"
  shows "\<exists>evs. events (snd rw) = events w @ evs \<and> filter is_retracement evs = []"
proof -
  from assms obtain cs w1 where f: "fetch_candles w = Some (cs, w1)"
    by (cases "fetch_candles w") (auto simp: monitor_market_def)
  then have "fetch_candles_rounds 3 w = Some (cs, w1)" by (simp add: fetch_candles_def)
  from fetch_candles_rounds_frame [OF this] obtain k
    where ev: "events w1 = events w @ replicate k (Sleep 5)"
    by auto
  have nk: "filter is_retracement (replicate k (Sleep 5)) = []"
    by (simp add: only_sleeps_no_retracement)
  show ?thesis
  proof (cases cs)
    case Nil
    with assms f have "rw = (Inr (), w1)" by (simp add: monitor_market_def)
    with ev nk show ?thesis by auto
  next
    case (Cons c cs')
    then obtain high low where hl: "get_high_low cs = (Some high, Some low)" by simp
    let ?w = "send_telegram_message (Monitoring_range high low) w1"
    from assms f hl have "monitor_loop high low None ?w = Some rw"
      by (simp add: monitor_market_def)
    from monitor_loop_no_retracement [OF this] obtain evs
      where "events (snd rw) = events ?w @ evs" "filter is_retracement evs = []"
      by auto
    with ev nk have "events (snd rw) =
        events w @ (replicate k (Sleep 5) @ [Telegram (Monitoring_range high low)] @ evs)"
      and "filter is_retracement
        (replicate k (Sleep 5) @ [Telegram (Monitoring_range high low)] @ evs) = []"
      by (simp_all add: send_telegram_message_def)
    then show ?thesis by blast
  qed
qed

text \<open>
  C1. With the band high = 110, low = 100 and the prices 111, 105, 99, the round that
  sees 111 sends the LONG signal and chases at 111 at once; 105 is seen by the trailing
  stop, not by the signal engine, so the entry on retracement at 105 that the retracement
  branch is written for is not made; at 99 the stop at 100 is hit and one trade, entered
  at 111, is logged.
\<close>

theorem monitor_market_no_retracement_entry:
  "monitor_market breakout_world =
   Some (Inr (),
     \<lparr>ohlcv_feed = [], ticker_feed = [],
      trade_log_file = Content
        [\<lparr>entry_price = 111, exit_price = 99, trade_type = LONG, profit_loss = - 0.12,
          trade_time = 30, reason = ''Trailing Stop Loss Hit''\<rparr>],
      summary_file = [],
      events = [Telegram (Monitoring_range 110 100), Sleep 10,
                Telegram (Signal_generated LONG 110), Telegram (Chasing LONG 111),
                Sleep 10, Sleep 10, Telegram (Stop_loss_hit LONG 99)],
      now = 30, start_time = 0\<rparr>)"
  by code_simp

subsection \<open>The scheduler loop\<close>

lemma main_try_summary_raises:
  assumes "now w \<ge> start_time w + days_30" and "generate_summary w = (Inl e, w1)"
  shows "main_try w = Some (Inl e, w1)"
  using assms by (simp add: main_try_def)

lemma main_try_monitor_raises:
  assumes "\<not> now w \<ge> start_time w + days_30" and "monitor_market w = Some (Inl e, w1)"
  shows "main_try w = Some (Inl e, w1)"
  using assms by (simp add: main_try_def)

lemma main_try_monitor_raises_after_summary:
  assumes "now w \<ge> start_time w + days_30" and "generate_summary w = (Inr u, w2)"
    and "monitor_market (w2\<lparr>start_time := now w2\<rparr>) = Some (Inl e, w1)"
  shows "main_try w = Some (Inl e, w1)"
  using assms by (simp add: main_try_def)

lemma main_iteration_caught:
  assumes "main_try w = Some (Inl e, w1)"
  shows "main_iteration w = Some (main_except e w1)"
    and "main_loop (Suc n) w = main_loop n (main_except e w1)"
  using assms by (simp_all add: main_iteration_def)

lemma main_except_events:
  "events (main_except e w) = events w @ [Telegram (Bot_crashed e), Sleep 10]"
  by (simp add: main_except_def sleep_def send_telegram_message_def)

lemma main_iteration_goes_on:
  assumes "main_try w = Some (r, w1)"
  shows "\<exists>w'. main_iteration w = Some w' \<and> main_loop (Suc n) w = main_loop n w'"
  using assms by (cases r) (simp_all add: main_iteration_def)

text \<open>
  C6. An exception raised by \<open>generate_summary\<close> or by \<open>monitor_market\<close> in a round of
  the loop of \<open>main\<close> ends the \<^verbatim>\<open>try\<close> block with that exception. Whenever the block ends
  with an exception, the round sends the crash message holding the exception, sleeps ten
  seconds, and the loop goes on with its next round from there; whichever way the block
  ends, the round ends and the loop goes on.
\<close>

theorem main_resumes_after_exception:
  "(now w \<ge> start_time w + days_30 \<and> generate_summary w = (Inl e, w1) \<longrightarrow>
      main_try w = Some (Inl e, w1)) \<and>
   (\<not> now w \<ge> start_time w + days_30 \<and> monitor_market w = Some (Inl e, w1) \<longrightarrow>
      main_try w = Some (Inl e, w1)) \<and>
   (now w \<ge> start_time w + days_30 \<and> generate_summary w = (Inr u, w2) \<and>
    monitor_market (w2\<lparr>start_time := now w2\<rparr>) = Some (Inl e, w1) \<longrightarrow>
      main_try w = Some (Inl e, w1)) \<and>
   (main_try w = Some (Inl e, w1) \<longrightarrow>
      main_iteration w = Some (main_except e w1) \<and>
      events (main_except e w1) = events w1 @ [Telegram (Bot_crashed e), Sleep 10] \<and>
      now (main_except e w1) = now w1 + 10 \<and>
      main_loop (Suc n) w = main_loop n (main_except e w1)) \<and>
   (main_try w = Some (r, w3) \<longrightarrow>
      (\<exists>w'. main_iteration w = Some w' \<and> main_loop (Suc n) w = main_loop n w'))"
proof (intro conjI impI)
  assume "now w \<ge> start_time w + days_30 \<and> generate_summary w = (Inl e, w1)"
  then show "main_try w = Some (Inl e, w1)" by (simp add: main_try_summary_raises)
next
  assume "\<not> now w \<ge> start_time w + days_30 \<and> monitor_market w = Some (Inl e, w1)"
  then show "main_try w = Some (Inl e, w1)" by (simp add: main_try_monitor_raises)
next
  assume "now w \<ge> start_time w + days_30 \<and> generate_summary w = (Inr u, w2) \<and>
    monitor_market (w2\<lparr>start_time := now w2\<rparr>) = Some (Inl e, w1)"
  then show "main_try w = Some (Inl e, w1)"
    using main_try_monitor_raises_after_summary by blast
next
  assume t: "main_try w = Some (Inl e, w1)"
  show "main_iteration w = Some (main_except e w1)" by (rule main_iteration_caught(1) [OF t])
  show "events (main_except e w1) = events w1 @ [Telegram (Bot_crashed e), Sleep 10]"
    by (rule main_except_events)
  show "now (main_except e w1) = now w1 + 10"
    by (simp add: main_except_def sleep_def send_telegram_message_def)
  show "main_loop (Suc n) w = main_loop n (main_except e w1)"
    by (rule main_iteration_caught(2) [OF t])
next
  assume "main_try w = Some (r, w3)"
  then show "\<exists>w'. main_iteration w = Some w' \<and> main_loop (Suc n) w = main_loop n w'"
    by (rule main_iteration_goes_on)
qed

theorem main_resumes_after_exception_witness:
  "now bad_log_world \<ge> start_time bad_log_world + days_30 \<and>
   generate_summary bad_log_world = (Inl JSONDecodeError, bad_log_world) \<and>
   main_try bad_log_world = Some (Inl JSONDecodeError, bad_log_world) \<and>
   main_iteration bad_log_world = Some (main_except JSONDecodeError bad_log_world) \<and>
   events (main_except JSONDecodeError bad_log_world) =
     [Telegram (Bot_crashed JSONDecodeError), Sleep 10] \<and>
   main_loop 1 bad_log_world = Some (main_except JSONDecodeError bad_log_world) \<and>
   \<not> now lost_log_world \<ge> start_time lost_log_world + days_30 \<and>
   (\<exists>w1. monitor_market lost_log_world = Some (Inl FileNotFoundError, w1) \<and>
         main_try lost_log_world = Some (Inl FileNotFoundError, w1) \<and>
         main_iteration lost_log_world = Some (main_except FileNotFoundError w1) \<and>
         events (main_except FileNotFoundError w1) =
           [Telegram (Monitoring_range 110 100), Sleep 10,
            Telegram (Signal_generated LONG 110), Telegram (Chasing LONG 111),
            Sleep 10, Sleep 10, Telegram (Bot_crashed FileNotFoundError), Sleep 10])"
proof -
  have h1: "now bad_log_world \<ge> start_time bad_log_world + days_30"
    by (simp add: bad_log_world_def quiet_world_def days_30_def)
  have g: "generate_summary bad_log_world = (Inl JSONDecodeError, bad_log_world)"
    by (simp add: generate_summary_def bad_log_world_def)
  note a = main_resumes_after_exception
    [where w = bad_log_world and e = JSONDecodeError and ?w1.0 = bad_log_world and n = 0]
  from a h1 g have t: "main_try bad_log_world = Some (Inl JSONDecodeError, bad_log_world)"
    by blast
  from a t have i: "main_iteration bad_log_world = Some (main_except JSONDecodeError bad_log_world)"
    and ev: "events (main_except JSONDecodeError bad_log_world) =
               events bad_log_world @ [Telegram (Bot_crashed JSONDecodeError), Sleep 10]"
    and l: "main_loop (Suc 0) bad_log_world = main_loop 0 (main_except JSONDecodeError bad_log_world)"
    by blast+
  from ev have ev': "events (main_except JSONDecodeError bad_log_world) =
               [Telegram (Bot_crashed JSONDecodeError), Sleep 10]"
    by (simp add: bad_log_world_def quiet_world_def)
  from l have l': "main_loop 1 bad_log_world = Some (main_except JSONDecodeError bad_log_world)"
    by simp
  let ?w1 = "\<lparr>ohlcv_feed = [], ticker_feed = [],
        trade_log_file = Unreadable FileNotFoundError, summary_file = [],
        events = [Telegram (Monitoring_range 110 100), Sleep 10,
                  Telegram (Signal_generated LONG 110), Telegram (Chasing LONG 111),
                  Sleep 10, Sleep 10],
        now = 30, start_time = 0\<rparr>"
  have h2: "\<not> now lost_log_world \<ge> start_time lost_log_world + days_30"
    by (simp add: lost_log_world_def breakout_world_def quiet_world_def days_30_def)
  have m: "monitor_market lost_log_world = Some (Inl FileNotFoundError, ?w1)" by code_simp
  note b = main_resumes_after_exception
    [where w = lost_log_world and e = FileNotFoundError and ?w1.0 = ?w1 and n = 0]
  from b h2 m have t2: "main_try lost_log_world = Some (Inl FileNotFoundError, ?w1)" by blast
  from b t2 have i2: "main_iteration lost_log_world = Some (main_except FileNotFoundError ?w1)"
    and ev2: "events (main_except FileNotFoundError ?w1) =
                events ?w1 @ [Telegram (Bot_crashed FileNotFoundError), Sleep 10]"
    by blast+
  from ev2 have ev2': "events (main_except FileNotFoundError ?w1) =
           [Telegram (Monitoring_range 110 100), Sleep 10,
            Telegram (Signal_generated LONG 110), Telegram (Chasing LONG 111),
            Sleep 10, Sleep 10, Telegram (Bot_crashed FileNotFoundError), Sleep 10]"
    by simp
  from h1 g t i ev' l' h2 m t2 i2 ev2' show ?thesis by blast
qed

end
